theory Spec2Isabelle
  imports Complex_Main
begin

section \<open>Numbers and strings\<close>

text \<open>
  The engine is JavaScript. Its numbers are IEEE 754 doubles. Here a number is a
  rational (\<open>rat\<close>) that is a double: the result of every arithmetic operation and the
  value of every decimal literal is rounded by \<open>double\<close>, to the nearest number with
  a 53-bit significand, ties to even. Comparisons of doubles are comparisons of the
  rationals. Three things are written without a rounding, because none happens: a sum
  of integers below \<open>2 ^ 53\<close> (the logo score, an occurrence count), an integer literal,
  and the choice between two numbers (\<open>Math.min\<close>, \<open>Math.max\<close>).

  The exponent of \<open>double\<close> is not bounded, so infinities, NaN and subnormal numbers
  are not represented. Candidate areas, widths and heights are finite numbers. All that
  the functions below do with a product or quotient of such numbers is to compare it
  with \<open>500\<close> and \<open>50000\<close> or to cap it at \<open>50\<close> and add it to a base score of at
  least \<open>50\<close>; an overflow or an underflow in the engine changes neither outcome.

  A string is a list of 8-bit characters. Where the source would compute NaN from a
  colour string whose channels do not parse, the predicates below answer as the source's
  comparisons with NaN do (every comparison is false); the score formulas are stated for
  colours whose channels parse.
\<close>

subsection \<open>\<open>parseInt(s, 16)\<close> and \<open>String.prototype.slice\<close>\<close>

definition hexDigits :: "(char \<times> int) list" where
  "hexDigits = zip ''0123456789abcdefABCDEF''
     [0, 1, 2, 3, 4, 5, 6, 7, 8, 9, 10, 11, 12, 13, 14, 15, 10, 11, 12, 13, 14, 15]"

definition hexDigit :: "char \<Rightarrow> int option" where
  "hexDigit c = map_of hexDigits c"

definition digitVal :: "char \<Rightarrow> int" where
  "digitVal c = (case hexDigit c of Some d \<Rightarrow> d | None \<Rightarrow> 0)"

definition isWhiteSpace :: "char \<Rightarrow> bool" where
  \<comment> \<open>tab, line feed, vertical tab, form feed, carriage return, space, no-break space\<close>
  "isWhiteSpace c = (of_char c \<in> {9, 10, 11, 12, 13, 32, 160 :: nat})"

definition parseInt16 :: "string \<Rightarrow> int option" where
  \<comment> \<open>\<open>parseInt(s, 16)\<close>; \<open>None\<close> is NaN\<close>
  "parseInt16 s =
     (let s1 = dropWhile isWhiteSpace s;
          neg = (s1 \<noteq> [] \<and> hd s1 = CHR ''-'');
          s2 = (if s1 \<noteq> [] \<and> (hd s1 = CHR ''+'' \<or> hd s1 = CHR ''-'') then tl s1 else s1);
          s3 = (if take 2 s2 = ''0x'' \<or> take 2 s2 = ''0X'' then drop 2 s2 else s2);
          ds = takeWhile (\<lambda>c. hexDigit c \<noteq> None) s3
      in if ds = [] then None
         else Some ((if neg then - 1 else 1) * foldl (\<lambda>a c. 16 * a + digitVal c) 0 ds))"

definition slice :: "nat \<Rightarrow> nat \<Rightarrow> string \<Rightarrow> string" where
  \<comment> \<open>\<open>s.slice(i, j)\<close> for \<open>0 \<le> i \<le> j\<close>\<close>
  "slice i j s = take (j - i) (drop i s)"

definition channels :: "string \<Rightarrow> (int \<times> int \<times> int) option" where
  \<comment> \<open>the three \<open>parseInt(hex.slice(..), 16)\<close>; \<open>None\<close> when one of them is NaN\<close>
  "channels hex =
     (case (parseInt16 (slice 1 3 hex), parseInt16 (slice 3 5 hex), parseInt16 (slice 5 7 hex)) of
        (Some r, Some g, Some b) \<Rightarrow> Some (r, g, b)
      | _ \<Rightarrow> None)"

definition hexColor :: "string \<Rightarrow> bool" where
  \<comment> \<open>a hash sign and six hexadecimal digits, as the page renderer produces\<close>
  "hexColor hex = (length hex = 7 \<and> hd hex = CHR ''#'' \<and> (\<forall>c \<in> set (tl hex). hexDigit c \<noteq> None))"

subsection \<open>Rounding to double\<close>

definition roundHalfEven :: "rat \<Rightarrow> int" where
  \<comment> \<open>the nearest integer, the even one of two equally near\<close>
  "roundHalfEven q =
     (let n = \<lfloor>q\<rfloor>; r = q - of_int n
      in if r < 1 / 2 then n else if 1 / 2 < r then n + 1 else if even n then n else n + 1)"

function binadeUp :: "rat \<Rightarrow> int \<Rightarrow> int" where
  "binadeUp x e = (if x < 2 then e else binadeUp (x / 2) (e + 1))"
  by pat_completeness auto
termination
proof (relation "measure (\<lambda>(x, e). nat \<lfloor>x\<rfloor>)")
  show "wf (measure (\<lambda>(x :: rat, e :: int). nat \<lfloor>x\<rfloor>))" by simp
next
  fix x :: rat and e :: int
  assume "\<not> x < 2"
  then have x: "2 \<le> x" by simp
  then have "x / 2 \<le> x - 1" by simp
  then have "\<lfloor>x / 2\<rfloor> \<le> \<lfloor>x - 1\<rfloor>" by (rule floor_mono)
  then have "\<lfloor>x / 2\<rfloor> \<le> \<lfloor>x\<rfloor> - 1" by simp
  moreover from x have "2 \<le> \<lfloor>x\<rfloor>" by (simp add: le_floor_iff)
  ultimately show "((x / 2, e + 1), (x, e)) \<in> measure (\<lambda>(x, e). nat \<lfloor>x\<rfloor>)" by simp
qed

declare binadeUp.simps [simp del]

definition binade :: "rat \<Rightarrow> int" where
  \<comment> \<open>the exponent \<open>e\<close> with \<open>2 ^ e \<le> |x| < 2 ^ (e + 1)\<close>, for \<open>x \<noteq> 0\<close>\<close>
  "binade x =
     (let a = \<bar>x\<bar>
      in if 1 \<le> a then binadeUp a 0
         else (let k = binadeUp (1 / a) 0 in if 1 / a = 2 ^ nat k then - k else - k - 1))"

definition double :: "rat \<Rightarrow> rat" where
  \<comment> \<open>round to the nearest number with a 53-bit significand, ties to even\<close>
  "double x =
     (if x = 0 then 0
      else let e = binade x; m = roundHalfEven (\<bar>x\<bar> * 2 powi (52 - e))
           in sgn x * of_int m * 2 powi (e - 52))"

subsection \<open>Colour primitives\<close>

text \<open>
  \<open>isNeutral\<close> is the filter of the page renderer. It is stated with the exact
  quotient \<open>saturation\<close>; \<open>isNeutralR double\<close> is the same test with the quotient and
  the literal \<open>0.15\<close> rounded, and the two are proved equal on hex colours below. The
  three functions of the classifier compute saturation and luminance in doubles:
  \<open>(0.299 * r + 0.587 * g + 0.114 * b) / 255\<close> is three rounded products, two rounded
  sums, from left to right, and a rounded quotient.
\<close>

definition saturation :: "int \<Rightarrow> int \<Rightarrow> int \<Rightarrow> rat" where
  "saturation r g b =
     (let mx = max r (max g b); mn = min r (min g b)
      in if mx = 0 then 0 else of_int (mx - mn) / of_int mx)"

definition isNeutral :: "string \<Rightarrow> bool" where
  "isNeutral hex =
     (if hex = [] then True
      else case channels hex of
             None \<Rightarrow> False
           | Some (r, g, b) \<Rightarrow> saturation r g b < 15 / 100)"

definition saturationR :: "(rat \<Rightarrow> rat) \<Rightarrow> int \<Rightarrow> int \<Rightarrow> int \<Rightarrow> rat" where
  "saturationR rnd r g b =
     (let mx = max r (max g b); mn = min r (min g b)
      in if mx = 0 then 0 else rnd (of_int (mx - mn) / of_int mx))"

definition isNeutralR :: "(rat \<Rightarrow> rat) \<Rightarrow> string \<Rightarrow> bool" where
  \<comment> \<open>\<open>isNeutral\<close> with the division and the literal \<open>0.15\<close> rounded by \<open>rnd\<close>\<close>
  "isNeutralR rnd hex =
     (if hex = [] then True
      else case channels hex of
             None \<Rightarrow> False
           | Some (r, g, b) \<Rightarrow> saturationR rnd r g b < rnd (15 / 100))"

definition luminance :: "int \<Rightarrow> int \<Rightarrow> int \<Rightarrow> rat" where
  "luminance r g b =
     double (double (double (double (double (299 / 1000) * of_int r) +
                             double (double (587 / 1000) * of_int g)) +
                     double (double (114 / 1000) * of_int b)) / 255)"

definition getColorVibrancy :: "string \<Rightarrow> rat" where
  \<comment> \<open>for a non-empty \<open>hex\<close> whose channels do not parse the source returns NaN, which is
      outside the model; the value \<open>0\<close> there is never used by a statement below\<close>
  "getColorVibrancy hex =
     (if hex = [] then 0
      else case channels hex of
             None \<Rightarrow> 0
           | Some (r, g, b) \<Rightarrow>
               (let luminancePenalty =
                      (if luminance r g b < double (15 / 100) \<or> luminance r g b > double (85 / 100)
                       then double (3 / 10) else 1)
                in double (saturationR double r g b * luminancePenalty)))"

definition isNeutralOrDark :: "string \<Rightarrow> bool" where
  "isNeutralOrDark hex =
     (if hex = [] then True
      else case channels hex of
             None \<Rightarrow> False
           | Some (r, g, b) \<Rightarrow>
               saturationR double r g b < double (25 / 100) \<or> luminance r g b < double (15 / 100))"

definition isValidBrandColor :: "string \<Rightarrow> bool" where
  "isValidBrandColor hex =
     (if hex = [] then False
      else case channels hex of
             None \<Rightarrow> False
           | Some (r, g, b) \<Rightarrow>
               if luminance r g b > double (95 / 100) \<or> luminance r g b < double (5 / 100) then False
               else saturationR double r g b > double (1 / 10) \<or>
                    (luminance r g b > double (1 / 10) \<and> luminance r g b < double (9 / 10)))"

section \<open>The colour signal aggregator\<close>

subsection \<open>Candidates and the score map\<close>

text \<open>
  The candidate lists are what the page renderer hands to \<open>classifyColors\<close>. A button
  candidate also carries a \<open>text\<close> field that the classifier never reads; it is left
  out. \<open>svgColors\<close> and \<open>accentElements\<close> are guarded by \<open>if (colorData.svgColors)\<close>
  in the source, so they may be absent.
\<close>

record colorArea =
  color :: string
  area :: rat

record button = colorArea +
  isVisible :: bool

record bg = colorArea +
  isHero :: bool

record svgColor = colorArea +
  inHeader :: bool

record colorData =
  buttons :: "button list"
  links :: "string list"
  backgrounds :: "bg list"
  "text" :: "string list"
  borders :: "string list"
  svgColors :: "svgColor list option"
  accentElements :: "colorArea list option"

datatype category = Button | Link | Background | Border | Svg | Accent

record scoreEntry =
  total :: rat
  categories :: "(category \<times> rat) list"
  vibrancy :: rat

text \<open>
  A JavaScript \<open>Map\<close> and a plain object with string keys both iterate in insertion
  order; they are association lists with distinct keys, new keys appended at the end.
  (A plain object lists keys that are canonical array indices first; colour strings
  start with a hash sign and are never such keys.)
\<close>

type_synonym scoreMap = "(string \<times> scoreEntry) list"

definition toLowerChar :: "char \<Rightarrow> char" where
  "toLowerChar c =
     (let n = (of_char c :: nat)
      in if (65 \<le> n \<and> n \<le> 90) \<or> (192 \<le> n \<and> n \<le> 222 \<and> n \<noteq> 215) then char_of (n + 32) else c)"

definition toLowerCase :: "string \<Rightarrow> string" where
  "toLowerCase s = map toLowerChar s"

definition hasKey :: "('k \<times> 'v) list \<Rightarrow> 'k \<Rightarrow> bool" where
  "hasKey m k = (map_of m k \<noteq> None)"

definition setKey :: "('k \<times> 'v) list \<Rightarrow> 'k \<Rightarrow> 'v \<Rightarrow> ('k \<times> 'v) list" where
  \<comment> \<open>\<open>obj[k] = v\<close>: an existing key keeps its place, a new one goes last\<close>
  "setKey m k v = (if hasKey m k then map (\<lambda>(k', v'). if k' = k then (k', v) else (k', v')) m
                   else m @ [(k, v)])"

definition orZero :: "rat option \<Rightarrow> rat" where
  \<comment> \<open>\<open>x || 0\<close> for a number or \<open>undefined\<close>\<close>
  "orZero x = (case x of None \<Rightarrow> 0 | Some v \<Rightarrow> if v = 0 then 0 else v)"

definition addScore :: "string \<Rightarrow> rat \<Rightarrow> category \<Rightarrow> scoreMap \<Rightarrow> scoreMap" where
  \<comment> \<open>\<open>entry.total += score\<close> and the addition to the subtotal are each one rounded sum\<close>
  "addScore c score cat cs =
     (if c = [] then cs
      else
        let normalized = toLowerCase c;
            cs' =
              (if \<not> hasKey cs normalized
               then cs @ [(normalized, \<lparr>total = 0, categories = [], vibrancy = getColorVibrancy normalized\<rparr>)]
               else cs)
        in map (\<lambda>(k, entry).
                  if k = normalized
                  then (k, entry\<lparr>total := double (total entry + score),
                                 categories := setKey (categories entry) cat
                                                 (double (orZero (map_of (categories entry) cat) + score))\<rparr>)
                  else (k, entry))
               cs')"

definition countOccurrences :: "string list \<Rightarrow> (string \<times> nat) list" where
  \<comment> \<open>\<open>counts[c] = (counts[c] || 0) + 1\<close> over the list, then \<open>Object.entries\<close>\<close>
  "countOccurrences cs =
     foldl (\<lambda>counts c. setKey counts c ((case map_of counts c of None \<Rightarrow> 0 | Some n \<Rightarrow> n) + 1)) [] cs"

subsection \<open>The six scoring passes\<close>

definition buttonScore :: "button \<Rightarrow> rat" where
  "buttonScore btn =
     (let vib = getColorVibrancy (color btn);
          baseScore = (if isVisible btn then 100 else 50);
          areaBonus = min (double (area btn / 1000)) 50;
          vibrancyBonus = double (vib * 100)
      in double (double (baseScore + areaBonus) + vibrancyBonus))"

definition scoreButtons :: "button list \<Rightarrow> scoreMap \<Rightarrow> scoreMap" where
  "scoreButtons bs cs0 =
     foldl (\<lambda>cs btn. addScore (color btn) (buttonScore btn) Button cs) cs0 bs"

definition linkScore :: "string \<Rightarrow> nat \<Rightarrow> rat" where
  "linkScore c count = double (double (of_nat count * 10) + double (getColorVibrancy c * 30))"

definition scoreLinks :: "string list \<Rightarrow> scoreMap \<Rightarrow> scoreMap" where
  "scoreLinks ls cs0 =
     foldl (\<lambda>cs (c, count). addScore c (linkScore c count) Link cs) cs0 (countOccurrences ls)"

definition backgroundScore :: "bg \<Rightarrow> rat" where
  "backgroundScore b = (if isHero b then 30 else 15)"

definition scoreBackgrounds :: "bg list \<Rightarrow> scoreMap \<Rightarrow> scoreMap" where
  "scoreBackgrounds bgs cs0 =
     foldl (\<lambda>cs b. addScore (color b) (backgroundScore b) Background cs) cs0 bgs"

definition borderScore :: "string \<Rightarrow> nat \<Rightarrow> rat" where
  "borderScore c count = double (double (of_nat count * 15) + double (getColorVibrancy c * 40))"

definition scoreBorders :: "string list \<Rightarrow> scoreMap \<Rightarrow> scoreMap" where
  "scoreBorders bs cs0 =
     foldl (\<lambda>cs (c, count).
              if getColorVibrancy c > double (3 / 10) then addScore c (borderScore c count) Border cs
              else cs)
       cs0 (countOccurrences bs)"

definition svgScore :: "svgColor \<Rightarrow> rat" where
  "svgScore svg =
     (let vib = getColorVibrancy (color svg);
          headerBonus = (if inHeader svg then 150 else 50);
          vibrancyBonus = double (vib * 80)
      in double (headerBonus + vibrancyBonus))"

definition scoreSvgColors :: "svgColor list option \<Rightarrow> scoreMap \<Rightarrow> scoreMap" where
  "scoreSvgColors svgs cs0 =
     (case svgs of
        None \<Rightarrow> cs0
      | Some ss \<Rightarrow> foldl (\<lambda>cs svg. addScore (color svg) (svgScore svg) Svg cs) cs0 ss)"

definition accentScore :: "colorArea \<Rightarrow> rat" where
  "accentScore accent = double (60 + double (getColorVibrancy (color accent) * 60))"

definition scoreAccentElements :: "colorArea list option \<Rightarrow> scoreMap \<Rightarrow> scoreMap" where
  "scoreAccentElements accents cs0 =
     (case accents of
        None \<Rightarrow> cs0
      | Some as \<Rightarrow> foldl (\<lambda>cs accent. addScore (color accent) (accentScore accent) Accent cs) cs0 as)"

definition colorScores :: "colorData \<Rightarrow> scoreMap" where
  \<comment> \<open>the map \<open>colorScores\<close> of \<open>classifyColors\<close> once all six passes have run\<close>
  "colorScores colorData =
     scoreAccentElements (accentElements colorData)
       (scoreSvgColors (svgColors colorData)
          (scoreBorders (borders colorData)
             (scoreBackgrounds (backgrounds colorData)
                (scoreLinks (links colorData)
                   (scoreButtons (buttons colorData) [])))))"

section \<open>The colour role selector\<close>

definition sortDescBy :: "('a \<Rightarrow> rat) \<Rightarrow> 'a list \<Rightarrow> 'a list" where
  \<comment> \<open>\<open>xs.sort((a, b) => key(b) - key(a))\<close>: \<open>Array.prototype.sort\<close> is stable, and the
      stable descending arrangement is unique; insertion sort computes it. The rounded
      difference of two doubles has the sign of their exact difference\<close>
  "sortDescBy key xs = sort_key (\<lambda>x. - key x) xs"

definition catValue :: "scoreEntry \<Rightarrow> category \<Rightarrow> rat option" where
  \<comment> \<open>\<open>data.categories.button\<close> and the like; \<open>None\<close> is \<open>undefined\<close>\<close>
  "catValue entry cat = map_of (categories entry) cat"

definition truthyNum :: "rat option \<Rightarrow> bool" where
  "truthyNum x = (case x of None \<Rightarrow> False | Some v \<Rightarrow> v \<noteq> 0)"

definition exceeds :: "rat option \<Rightarrow> rat \<Rightarrow> bool" where
  \<comment> \<open>\<open>x > n\<close>, false for \<open>undefined\<close>\<close>
  "exceeds x n = (case x of None \<Rightarrow> False | Some v \<Rightarrow> v > n)"

definition truthyStr :: "string option \<Rightarrow> bool" where
  "truthyStr x = (case x of None \<Rightarrow> False | Some s \<Rightarrow> s \<noteq> [])"

definition orElse :: "string option \<Rightarrow> string option \<Rightarrow> string option" where
  \<comment> \<open>\<open>a || b\<close> on strings, \<open>undefined\<close> and \<open>null\<close>\<close>
  "orElse a b = (if truthyStr a then a else b)"

definition orDefault :: "string option \<Rightarrow> string \<Rightarrow> string" where
  \<comment> \<open>\<open>a || "literal"\<close>\<close>
  "orDefault a d = (case a of None \<Rightarrow> d | Some s \<Rightarrow> if s = [] then d else s)"

definition nthOpt :: "'a list \<Rightarrow> nat \<Rightarrow> 'a option" where
  \<comment> \<open>\<open>xs[i]\<close>; \<open>None\<close> is \<open>undefined\<close>\<close>
  "nthOpt xs i = (if i < length xs then Some (xs ! i) else None)"

definition dedupe :: "'a list \<Rightarrow> 'a list" where
  \<comment> \<open>\<open>[...new Set(xs)]\<close>: a set keeps its values in insertion order and ignores a
      value it already holds\<close>
  "dedupe xs = foldl (\<lambda>seen x. if x \<in> set seen then seen else seen @ [x]) [] xs"

definition sortedColors :: "scoreMap \<Rightarrow> (string \<times> scoreEntry) list" where
  "sortedColors cs = sortDescBy (\<lambda>(c, data). total data) (filter (\<lambda>(c, data). isValidBrandColor c) cs)"

definition primaryColor :: "(string \<times> scoreEntry) list \<Rightarrow> (string \<times> scoreEntry) option" where
  "primaryColor ranked =
     (let p1 = find (\<lambda>(c, data). truthyNum (catValue data Button) \<and>
                                  exceeds (catValue data Button) 50 \<and> \<not> isNeutralOrDark c) ranked;
          p2 = (if p1 = None
                then find (\<lambda>(c, data). \<not> isNeutralOrDark c \<and> total data > 50) ranked
                else p1);
          p3 = (if p2 = None
                then find (\<lambda>(c, data). truthyNum (catValue data Button) \<and>
                                         exceeds (catValue data Button) 50) ranked
                else p2)
      in p3)"

definition secondaryColor ::
  "(string \<times> scoreEntry) list \<Rightarrow> (string \<times> scoreEntry) option \<Rightarrow> (string \<times> scoreEntry) option" where
  "secondaryColor ranked prim =
     (case find (\<lambda>(c, data). Some c \<noteq> map_option fst prim \<and>
                   (truthyNum (catValue data Link) \<or> truthyNum (catValue data Button) \<or>
                    truthyNum (catValue data Border)) \<and>
                   \<not> isNeutralOrDark c) ranked of
        Some e \<Rightarrow> Some e
      | None \<Rightarrow>
          find (\<lambda>(c, data). Some c \<noteq> map_option fst prim \<and>
                  (truthyNum (catValue data Link) \<or> truthyNum (catValue data Button))) ranked)"

definition bgColors :: "bg list \<Rightarrow> string list" where
  "bgColors bgs = map color (take 3 (sortDescBy area (filter (\<lambda>b. area b > 50000) bgs)))"

definition textColorList :: "string list \<Rightarrow> string list" where
  "textColorList ts = map fst (take 2 (sortDescBy (\<lambda>(c, n). of_nat n) (countOccurrences ts)))"

definition accentColor ::
  "(string \<times> scoreEntry) list \<Rightarrow> (string \<times> scoreEntry) option \<Rightarrow> (string \<times> scoreEntry) option
     \<Rightarrow> (string \<times> scoreEntry) option" where
  "accentColor ranked prim sec =
     find (\<lambda>(c, data). Some c \<noteq> map_option fst prim \<and> Some c \<noteq> map_option fst sec \<and>
             \<not> isNeutralOrDark c) ranked"

record paletteEntry =
  color :: string
  score :: rat
  usage :: "category list"

record colorResult =
  primary :: "string option"
  secondary :: "string option"
  background :: string
  backgrounds :: "string list"
  "text" :: string
  textColors :: "string list"
  accent :: "string option"
  palette :: "paletteEntry list"

definition classifyRoles :: "scoreMap \<Rightarrow> bg list \<Rightarrow> string list \<Rightarrow> colorResult" where
  \<comment> \<open>\<open>classifyColors\<close> from \<open>sortedColors\<close> on, given the score map and the raw
      background and text candidates\<close>
  "classifyRoles cs bgs ts =
     (let ranked = sortedColors cs;
          prim = primaryColor ranked;
          sec = secondaryColor ranked prim;
          bgc = bgColors bgs;
          tc = textColorList ts;
          acc = accentColor ranked prim sec
      in \<lparr>primary = orElse (orElse (map_option fst prim) (map_option fst (nthOpt ranked 0))) None,
          secondary = orElse (orElse (map_option fst sec) (map_option fst (nthOpt ranked 1))) None,
          background = orDefault (nthOpt bgc 0) ''#ffffff'',
          backgrounds = dedupe bgc,
          text = orDefault (nthOpt tc 0) ''#000000'',
          textColors = dedupe tc,
          accent = orElse (orElse (map_option fst acc) (map_option fst (nthOpt ranked 2))) None,
          palette = map (\<lambda>(c, data). \<lparr>color = c, score = total data, usage = map fst (categories data)\<rparr>)
                      (take 8 ranked)\<rparr>)"

definition classifyColors :: "colorData \<Rightarrow> colorResult" where
  "classifyColors colorData =
     classifyRoles (colorScores colorData) (colorData.backgrounds colorData) (colorData.text colorData)"

section \<open>The logo candidate ranker\<close>

record logoCandidate =
  type :: string
  src :: "string option"
  width :: rat
  height :: rat
  inHeader :: bool
  hasLogoKeyword :: bool
  format :: string

record alternative =
  url :: "string option"
  format :: string

record logoResult =
  url :: "string option"
  format :: "string option"
  width :: "rat option"
  height :: "rat option"
  alternatives :: "alternative list"

definition logoScore :: "logoCandidate \<Rightarrow> rat" where
  \<comment> \<open>\<open>area\<close> is the rounded product; the score is a sum of integers\<close>
  "logoScore logo =
     (let s1 = (if logoCandidate.format logo = ''svg'' then 50
                else if logoCandidate.format logo = ''png'' then 30 else 0);
          a = double (logoCandidate.width logo * logoCandidate.height logo);
          s2 = (if a > 500 \<and> a < 50000 then s1 + 30 else s1);
          s3 = (if logoCandidate.inHeader logo then s2 + 40 else s2);
          s4 = (if hasLogoKeyword logo then s3 + 30 else s3)
      in s4)"

definition scored :: "logoCandidate list \<Rightarrow> (logoCandidate \<times> rat) list" where
  \<comment> \<open>\<open>{...logo, score}\<close> is the candidate paired with its score\<close>
  "scored logoData = sortDescBy snd (map (\<lambda>logo. (logo, logoScore logo)) logoData)"

definition best :: "logoCandidate list \<Rightarrow> (logoCandidate \<times> rat) option" where
  "best logoData = nthOpt (scored logoData) 0"

definition orNullNum :: "rat option \<Rightarrow> rat option" where
  \<comment> \<open>\<open>x || null\<close> for a number or \<open>undefined\<close>\<close>
  "orNullNum x = (case x of None \<Rightarrow> None | Some v \<Rightarrow> if v = 0 then None else Some v)"

definition extractLogo :: "logoCandidate list \<Rightarrow> logoResult" where
  \<comment> \<open>the scoring and ranking of \<open>extractLogo\<close>, given the candidates read from the page\<close>
  "extractLogo logoData =
     (let b = best logoData
      in \<lparr>url = orElse (case b of None \<Rightarrow> None | Some (l, s) \<Rightarrow> src l) None,
          format = orElse (map_option (\<lambda>(l, s). logoCandidate.format l) b) None,
          width = orNullNum (map_option (\<lambda>(l, s). logoCandidate.width l) b),
          height = orNullNum (map_option (\<lambda>(l, s). logoCandidate.height l) b),
          alternatives = map (\<lambda>(l, s). \<lparr>alternative.url = src l,
                                             alternative.format = logoCandidate.format l\<rparr>)
                           (take 3 (drop 1 (scored logoData)))\<rparr>)"

section \<open>The claims' own vocabulary\<close>

definition categorySubtotal :: "scoreEntry \<Rightarrow> category \<Rightarrow> rat" where
  \<comment> \<open>the per-category subtotal of an entry, \<open>0\<close> for a category that never contributed\<close>
  "categorySubtotal entry cat = (case map_of (categories entry) cat of None \<Rightarrow> 0 | Some v \<Rightarrow> v)"

definition colorOf :: "(string \<times> scoreEntry) option \<Rightarrow> string option" where
  \<comment> \<open>\<open>e?.[0]\<close> for a ranked entry or \<open>undefined\<close>\<close>
  "colorOf e = map_option fst e"

definition rendererColors :: "colorData \<Rightarrow> bool" where
  \<comment> \<open>what the page renderer guarantees of the lists that are scored: every colour is a
      hex colour, and a button's area is not negative\<close>
  "rendererColors cd =
     ((\<forall>b \<in> set (buttons cd). hexColor (colorArea.color b) \<and> 0 \<le> area b) \<and>
      (\<forall>c \<in> set (links cd). hexColor c) \<and>
      (\<forall>b \<in> set (colorData.backgrounds cd). hexColor (colorArea.color b)) \<and>
      (\<forall>c \<in> set (borders cd). hexColor c) \<and>
      (case svgColors cd of None \<Rightarrow> True | Some ss \<Rightarrow> \<forall>s \<in> set ss. hexColor (colorArea.color s)) \<and>
      (case accentElements cd of None \<Rightarrow> True | Some as \<Rightarrow> \<forall>a \<in> set as. hexColor (colorArea.color a)))"

definition entryOk :: "scoreEntry \<Rightarrow> bool" where
  \<comment> \<open>an entry that has received at least one strictly positive contribution\<close>
  "entryOk e = (0 < total e \<and> categories e \<noteq> [] \<and> (\<forall>(cat, v) \<in> set (categories e). 0 < v) \<and>
                distinct (map fst (categories e)))"

definition mapOk :: "scoreMap \<Rightarrow> bool" where
  "mapOk cs = (\<forall>(k, e) \<in> set cs. entryOk e)"

definition candidateCount :: "colorData \<Rightarrow> nat" where
  \<comment> \<open>the number of candidates that are scored; no more than that many score additions
      are made, since link and border colours are scored once per distinct colour\<close>
  "candidateCount cd =
     length (buttons cd) + length (links cd) + length (colorData.backgrounds cd) + length (borders cd) +
     (case svgColors cd of None \<Rightarrow> 0 | Some ss \<Rightarrow> length ss) +
     (case accentElements cd of None \<Rightarrow> 0 | Some as \<Rightarrow> length as)"

definition nearlyAdditive :: "nat \<Rightarrow> scoreEntry \<Rightarrow> bool" where
  \<comment> \<open>after at most \<open>n\<close> score additions: the total is a double and not negative, every
      subtotal lies between \<open>0\<close> and the total, and the total differs from the sum of the
      subtotals by at most \<open>n\<close> times \<open>2 ^ - 52\<close> of the total\<close>
  "nearlyAdditive n e =
     (0 \<le> total e \<and> double (total e) = total e \<and>
      (\<forall>(cat, v) \<in> set (categories e). 0 \<le> v \<and> v \<le> total e) \<and>
      distinct (map fst (categories e)) \<and>
      \<bar>total e - sum_list (map snd (categories e))\<bar> \<le> of_nat n * 2 powi (- 52) * total e)"



definition backgroundsClaimed :: "bg list \<Rightarrow> string list" where
  \<comment> \<open>the background rule as claim C5 words it: the first three distinct colours of the
      qualifying candidates in descending order of area\<close>
  "backgroundsClaimed bgs =
     take 3 (dedupe (map colorArea.color (sortDescBy area (filter (\<lambda>b. area b > 50000) bgs))))"

section \<open>Example pages\<close>

definition noCandidates :: colorData where
  "noCandidates = \<lparr>buttons = [], links = [], colorData.backgrounds = [], colorData.text = [],
     borders = [], svgColors = Some [], accentElements = Some []\<rparr>"

definition oneMutedLink :: colorData where
  \<comment> \<open>a single link whose colour has saturation \<open>0.1875\<close>\<close>
  "oneMutedLink = noCandidates\<lparr>links := [''#a08282'']\<rparr>"

definition threeMutedLinks :: colorData where
  "threeMutedLinks =
     noCandidates\<lparr>links := [''#a08282'', ''#a08282'', ''#a08282'', ''#82a082'', ''#82a082'', ''#8282a0'']\<rparr>"

definition twoSvgColors :: colorData where
  \<comment> \<open>an orange logo in the header and a blue icon further down\<close>
  "twoSvgColors =
     noCandidates\<lparr>svgColors :=
       Some [\<lparr>colorArea.color = ''#ff5000'', area = 4000, svgColor.inHeader = True\<rparr>,
             \<lparr>colorArea.color = ''#0050ff'', area = 4000, svgColor.inHeader = False\<rparr>]\<rparr>"

definition whiteSectionsDarkFooter :: colorData where
  \<comment> \<open>three white sections of a 1920 pixel wide page above a dark footer\<close>
  "whiteSectionsDarkFooter =
     noCandidates\<lparr>colorData.backgrounds :=
       [\<lparr>colorArea.color = ''#ffffff'', area = 2073600, isHero = True\<rparr>,
        \<lparr>colorArea.color = ''#ffffff'', area = 1036800, isHero = False\<rparr>,
        \<lparr>colorArea.color = ''#ffffff'', area = 518400, isHero = False\<rparr>,
        \<lparr>colorArea.color = ''#111111'', area = 384000, isHero = False\<rparr>]\<rparr>"

definition orangeSectionTwoBadges :: colorData where
  \<comment> \<open>a section and two badges with the same orange background\<close>
  "orangeSectionTwoBadges =
     noCandidates\<lparr>colorData.backgrounds :=
         [\<lparr>colorArea.color = ''#c86404'', area = 240000, isHero = False\<rparr>],
       accentElements :=
         Some [\<lparr>colorArea.color = ''#c86404'', area = 2400\<rparr>,
               \<lparr>colorArea.color = ''#c86404'', area = 2400\<rparr>]\<rparr>"

definition darkGreenButtonOrangeLogo :: colorData where
  \<comment> \<open>a visible dark green button and an orange logo in the header\<close>
  "darkGreenButtonOrangeLogo =
     noCandidates\<lparr>buttons := [\<lparr>colorArea.color = ''#0c361a'', area = 8000, isVisible = True\<rparr>],
       svgColors := Some [\<lparr>colorArea.color = ''#ff5000'', area = 4000, svgColor.inHeader = True\<rparr>]\<rparr>"

definition orangeBorders :: colorData where
  \<comment> \<open>two elements with an orange border\<close>
  "orangeBorders = noCandidates\<lparr>borders := [''#ff5000'', ''#ff5000'']\<rparr>"

definition mintBorders :: colorData where
  \<comment> \<open>two elements with a light green border\<close>
  "mintBorders = noCandidates\<lparr>borders := [''#99ffbb'', ''#99ffbb'']\<rparr>"

definition logoPngThenSvg :: "logoCandidate list" where
  \<comment> \<open>a PNG image and an inline SVG, both in the header, both 100 by 40\<close>
  "logoPngThenSvg =
     [\<lparr>type = ''img'', src = Some ''https://example.com/logo.png'', logoCandidate.width = 100,
       logoCandidate.height = 40, logoCandidate.inHeader = True, hasLogoKeyword = True,
       logoCandidate.format = ''png''\<rparr>,
      \<lparr>type = ''svg'', src = Some ''data:image/svg+xml,%3Csvg%3E'', logoCandidate.width = 100,
       logoCandidate.height = 40, logoCandidate.inHeader = True, hasLogoKeyword = True,
       logoCandidate.format = ''svg''\<rparr>]"

definition logoAtThreshold :: logoCandidate where
  \<comment> \<open>a square image whose side is the double nearest to the square root of \<open>50000\<close>,
      \<open>223.60679774997897\<close>\<close>
  "logoAtThreshold =
     \<lparr>type = ''img'', src = Some ''https://example.com/mark.webp'',
      logoCandidate.width = 3933732386813731 / 17592186044416,
      logoCandidate.height = 3933732386813731 / 17592186044416,
      logoCandidate.inHeader = False, hasLogoKeyword = False, logoCandidate.format = ''other''\<rparr>"

section \<open>Colour primitives: properties\<close>

lemma hexDigit_SomeD:
  "hexDigit c = Some d \<Longrightarrow>
     \<not> isWhiteSpace c \<and> c \<noteq> CHR ''-'' \<and> c \<noteq> CHR ''+'' \<and> c \<noteq> CHR ''x'' \<and> c \<noteq> CHR ''X'' \<and>
     0 \<le> d \<and> d \<le> 15"
  unfolding hexDigit_def hexDigits_def isWhiteSpace_def
  by (auto split: if_splits)

lemma parseInt16_two_digits:
  assumes a: "hexDigit a = Some x" and b: "hexDigit b = Some y"
  shows "parseInt16 [a, b] = Some (16 * x + y)"
proof -
  note fa = hexDigit_SomeD [OF a] and fb = hexDigit_SomeD [OF b]
  show ?thesis
    using fa fb a b by (simp add: parseInt16_def digitVal_def)
qed

lemma hexColor_shape:
  assumes "hexColor hex"
  obtains c1 c2 c3 c4 c5 c6 d1 d2 d3 d4 d5 d6 where
    "hex = [CHR ''#'', c1, c2, c3, c4, c5, c6]"
    "hexDigit c1 = Some d1" "hexDigit c2 = Some d2" "hexDigit c3 = Some d3"
    "hexDigit c4 = Some d4" "hexDigit c5 = Some d5" "hexDigit c6 = Some d6"
proof -
  from assms have len: "length hex = 7" and h: "hd hex = CHR ''#''"
    and ds: "\<forall>c \<in> set (tl hex). hexDigit c \<noteq> None"
    by (simp_all add: hexColor_def)
  from len obtain c0 c1 c2 c3 c4 c5 c6 where hex: "hex = [c0, c1, c2, c3, c4, c5, c6]"
    by (auto simp: length_Suc_conv eval_nat_numeral)
  with h have c0: "c0 = CHR ''#''" by simp
  from ds hex obtain d1 d2 d3 d4 d5 d6 where
    "hexDigit c1 = Some d1" "hexDigit c2 = Some d2" "hexDigit c3 = Some d3"
    "hexDigit c4 = Some d4" "hexDigit c5 = Some d5" "hexDigit c6 = Some d6"
    by auto
  with hex c0 that show thesis by blast
qed

lemma hexColor_channels:
  assumes "hexColor hex"
  obtains r g b where "channels hex = Some (r, g, b)"
    "0 \<le> r" "r \<le> 255" "0 \<le> g" "g \<le> 255" "0 \<le> b" "b \<le> 255"
proof -
  from assms obtain c1 c2 c3 c4 c5 c6 d1 d2 d3 d4 d5 d6 where
    hex: "hex = [CHR ''#'', c1, c2, c3, c4, c5, c6]" and
    d: "hexDigit c1 = Some d1" "hexDigit c2 = Some d2" "hexDigit c3 = Some d3"
       "hexDigit c4 = Some d4" "hexDigit c5 = Some d5" "hexDigit c6 = Some d6"
    by (rule hexColor_shape)
  have ch: "channels hex = Some (16 * d1 + d2, 16 * d3 + d4, 16 * d5 + d6)"
    by (simp add: channels_def slice_def hex parseInt16_two_digits d)
  from d have "0 \<le> d1 \<and> d1 \<le> 15" "0 \<le> d2 \<and> d2 \<le> 15" "0 \<le> d3 \<and> d3 \<le> 15"
    "0 \<le> d4 \<and> d4 \<le> 15" "0 \<le> d5 \<and> d5 \<le> 15" "0 \<le> d6 \<and> d6 \<le> 15"
    by (auto dest: hexDigit_SomeD)
  then have "0 \<le> 16 * d1 + d2" "16 * d1 + d2 \<le> 255" "0 \<le> 16 * d3 + d4" "16 * d3 + d4 \<le> 255"
    "0 \<le> 16 * d5 + d6" "16 * d5 + d6 \<le> 255"
    by linarith+
  with ch that show thesis by blast
qed

lemma saturation_bounds:
  assumes "0 \<le> r" "0 \<le> g" "0 \<le> b"
  shows "0 \<le> saturation r g b \<and> saturation r g b \<le> 1"
proof -
  let ?mx = "max r (max g b)" and ?mn = "min r (min g b)"
  have mn: "0 \<le> ?mn" and le: "?mn \<le> ?mx" using assms by auto
  show ?thesis
  proof (cases "?mx = 0")
    case True
    then show ?thesis by (simp add: saturation_def)
  next
    case False
    with mn le have pos: "0 < ?mx" by linarith
    have "saturation r g b = of_int (?mx - ?mn) / of_int ?mx"
      using False by (simp add: saturation_def Let_def)
    moreover have "(0::rat) \<le> of_int (?mx - ?mn) / of_int ?mx"
      using le pos by (intro divide_nonneg_pos) simp_all
    moreover have "(of_int (?mx - ?mn) :: rat) / of_int ?mx \<le> 1"
      using mn pos by (simp add: divide_le_eq)
    ultimately show ?thesis by simp
  qed
qed

lemma saturation_less_iff:
  assumes "0 \<le> r" "0 \<le> g" "0 \<le> b"
  shows "saturation r g b < 15 / 100 \<longleftrightarrow>
           max r (max g b) = 0 \<or> 20 * (max r (max g b) - min r (min g b)) < 3 * max r (max g b)"
proof -
  let ?mx = "max r (max g b)" and ?mn = "min r (min g b)"
  have mn: "0 \<le> ?mn" and le: "?mn \<le> ?mx" using assms by auto
  show ?thesis
  proof (cases "?mx = 0")
    case True
    then have "saturation r g b = 0" by (simp add: saturation_def)
    with True show ?thesis by simp
  next
    case False
    with mn le have pos: "0 < ?mx" by linarith
    have "saturation r g b < 15 / 100 \<longleftrightarrow> (of_int (?mx - ?mn) :: rat) / of_int ?mx < 3 / 20"
      using False by (simp add: saturation_def Let_def)
    also have "\<dots> \<longleftrightarrow> (of_int (20 * (?mx - ?mn)) :: rat) < of_int (3 * ?mx)"
      using pos by (simp add: divide_less_eq field_simps)
    also have "\<dots> \<longleftrightarrow> 20 * (?mx - ?mn) < 3 * ?mx"
      by (rule of_int_less_iff)
    finally show ?thesis using False by simp
  qed
qed

text \<open>
  Claim C8. For a hex colour (a hash sign and six hexadecimal digits) the three channels
  parse to integers between 0 and 255, and \<open>isNeutral\<close> holds exactly when the
  saturation, which is \<open>(max - min) / max\<close> of the three channels and \<open>0\<close> when the
  maximum is \<open>0\<close>, is strictly below \<open>0.15\<close>. In integers that is
  \<open>max = 0\<close> or \<open>20 * (max - min) < 3 * max\<close>, so a colour whose saturation is
  exactly \<open>0.15\<close> is not neutral, and black (maximum \<open>0\<close>) is neutral.
\<close>

theorem isNeutral_strict_threshold:
  assumes "hexColor hex"
  shows "\<exists>r g b. channels hex = Some (r, g, b) \<and>
           (let mx = Max {r, g, b}; mn = Min {r, g, b};
                sat = (if mx = 0 then 0 else (of_int mx - of_int mn) / of_int mx :: rat)
            in 0 \<le> mn \<and> mx \<le> 255 \<and>
               (isNeutral hex \<longleftrightarrow> sat < 15 / 100) \<and>
               (isNeutral hex \<longleftrightarrow> mx = 0 \<or> 20 * (mx - mn) < 3 * mx) \<and>
               (sat = 15 / 100 \<longrightarrow> \<not> isNeutral hex) \<and>
               (mx = 0 \<longrightarrow> sat = 0 \<and> isNeutral hex))"
proof -
  from assms obtain r g b where ch: "channels hex = Some (r, g, b)"
    and rng: "0 \<le> r" "r \<le> 255" "0 \<le> g" "g \<le> 255" "0 \<le> b" "b \<le> 255"
    by (rule hexColor_channels)
  from assms have ne: "hex \<noteq> []" by (auto simp: hexColor_def)
  define M where "M = max r (max g b)"
  define m where "m = min r (min g b)"
  define sat :: rat where "sat = (if M = 0 then 0 else (of_int M - of_int m) / of_int M)"
  have mx: "Max {r, g, b} = M" and mn: "Min {r, g, b} = m"
    by (simp_all add: M_def m_def)
  have s: "saturation r g b = sat"
    by (simp add: saturation_def Let_def sat_def M_def m_def)
  have n: "isNeutral hex \<longleftrightarrow> sat < 15 / 100"
    using ne ch by (simp add: isNeutral_def s)
  have i: "sat < 15 / 100 \<longleftrightarrow> M = 0 \<or> 20 * (M - m) < 3 * M"
    using saturation_less_iff [of r g b] rng by (simp add: s M_def m_def)
  have j: "isNeutral hex \<longleftrightarrow> M = 0 \<or> 20 * (M - m) < 3 * M"
    using n i by simp
  have e: "sat = 15 / 100 \<longrightarrow> \<not> isNeutral hex"
    using n by simp
  have z: "M = 0 \<longrightarrow> sat = 0" by (simp add: sat_def)
  have z': "M = 0 \<longrightarrow> isNeutral hex"
    using j by simp
  have b: "0 \<le> m" "M \<le> 255" using rng by (simp_all add: M_def m_def)
  have "0 \<le> m \<and> M \<le> 255 \<and> (isNeutral hex \<longleftrightarrow> sat < 15 / 100) \<and>
        (isNeutral hex \<longleftrightarrow> M = 0 \<or> 20 * (M - m) < 3 * M) \<and>
        (sat = 15 / 100 \<longrightarrow> \<not> isNeutral hex) \<and> (M = 0 \<longrightarrow> sat = 0 \<and> isNeutral hex)"
    using n j e z z' b by blast
  then have "channels hex = Some (r, g, b) \<and>
           (let mx = Max {r, g, b}; mn = Min {r, g, b};
                sat = (if mx = 0 then 0 else (of_int mx - of_int mn) / of_int mx :: rat)
            in 0 \<le> mn \<and> mx \<le> 255 \<and>
               (isNeutral hex \<longleftrightarrow> sat < 15 / 100) \<and>
               (isNeutral hex \<longleftrightarrow> mx = 0 \<or> 20 * (mx - mn) < 3 * mx) \<and>
               (sat = 15 / 100 \<longrightarrow> \<not> isNeutral hex) \<and>
               (mx = 0 \<longrightarrow> sat = 0 \<and> isNeutral hex))"
    unfolding Let_def mx mn sat_def [symmetric] using ch by blast
  then show ?thesis by blast
qed

theorem isNeutral_strict_threshold_witness:
  "hexColor ''#141111'' \<and> channels ''#141111'' = Some (20, 17, 17) \<and> \<not> isNeutral ''#141111''"
proof -
  have h: "hexColor ''#141111''"
    by (simp add: hexColor_def hexDigit_def hexDigits_def)
  have c: "channels ''#141111'' = Some (20, 17, 17)"
    by (simp add: channels_def slice_def parseInt16_def isWhiteSpace_def hexDigit_def
        hexDigits_def digitVal_def)
  from isNeutral_strict_threshold [OF h] c
  have "isNeutral ''#141111'' \<longleftrightarrow>
          Max {20, 17, 17 :: int} = 0 \<or> 20 * (Max {20, 17, 17} - Min {20, 17, 17}) < 3 * Max {20, 17, 17 :: int}"
    by (auto simp: Let_def)
  then have "\<not> isNeutral ''#141111''" by simp
  with h c show ?thesis by simp
qed

section \<open>Rounding to double: properties\<close>

text \<open>
  \<open>double x\<close> is a number with a 53-bit significand in the binade of \<open>x\<close> (or the
  power of two that ends it), at most half a unit in the last place away from \<open>x\<close>;
  of two equally near candidates \<open>roundHalfEven\<close> takes the even one. That is IEEE 754
  round-to-nearest, ties-to-even, for results in the normal range.
\<close>

lemma binadeUp_bounds:
  "1 \<le> x \<Longrightarrow> e \<le> binadeUp x e \<and> 2 ^ nat (binadeUp x e - e) \<le> x \<and> x < 2 * 2 ^ nat (binadeUp x e - e)"
proof (induction x e rule: binadeUp.induct)
  case (1 x e)
  show ?case
  proof (cases "x < 2")
    case True
    then have "binadeUp x e = e" by (subst binadeUp.simps) simp
    with "1.prems" True show ?thesis by simp
  next
    case False
    then have h: "1 \<le> x / 2" by simp
    let ?k = "binadeUp (x / 2) (e + 1)"
    from "1.IH" [OF False h] have ih: "e + 1 \<le> ?k" "2 ^ nat (?k - (e + 1)) \<le> x / 2"
      "x / 2 < 2 * 2 ^ nat (?k - (e + 1))" by simp_all
    have k: "binadeUp x e = ?k" using False by (subst binadeUp.simps) simp
    from ih(1) have n: "nat (?k - e) = Suc (nat (?k - (e + 1)))" by simp
    from ih show ?thesis unfolding k n by (simp add: field_simps)
  qed
qed

lemma binade_bounds:
  assumes "x \<noteq> 0"
  shows "2 powi binade x \<le> \<bar>x\<bar> \<and> \<bar>x\<bar> < 2 powi (binade x + 1)"
proof (cases "1 \<le> \<bar>x\<bar>")
  case True
  from binadeUp_bounds [OF True, of 0]
  have "0 \<le> binadeUp \<bar>x\<bar> 0" "2 ^ nat (binadeUp \<bar>x\<bar> 0) \<le> \<bar>x\<bar>" "\<bar>x\<bar> < 2 * 2 ^ nat (binadeUp \<bar>x\<bar> 0)"
    by simp_all
  moreover have b: "binade x = binadeUp \<bar>x\<bar> 0" using True by (simp add: binade_def)
  moreover have "2 powi binadeUp \<bar>x\<bar> 0 = (2::rat) ^ nat (binadeUp \<bar>x\<bar> 0)"
    using \<open>0 \<le> binadeUp \<bar>x\<bar> 0\<close> by (simp add: power_int_def)
  moreover have "2 powi (binadeUp \<bar>x\<bar> 0 + 1) = (2::rat) * 2 ^ nat (binadeUp \<bar>x\<bar> 0)"
    using \<open>0 \<le> binadeUp \<bar>x\<bar> 0\<close> by (simp add: power_int_def nat_add_distrib)
  ultimately show ?thesis by (simp only:)
next
  case False
  with assms have a: "0 < \<bar>x\<bar>" "\<bar>x\<bar> < 1" by simp_all
  then have y: "1 \<le> 1 / \<bar>x\<bar>" by simp
  define k where "k = binadeUp (1 / \<bar>x\<bar>) 0"
  from binadeUp_bounds [OF y, of 0]
  have k: "0 \<le> k" "2 ^ nat k \<le> 1 / \<bar>x\<bar>" "1 / \<bar>x\<bar> < 2 * 2 ^ nat k"
    by (simp_all add: k_def)
  have p: "(0::rat) < 2 ^ nat k" by simp
  from k(2) a(1) have up: "\<bar>x\<bar> * 2 ^ nat k \<le> 1" by (simp add: field_simps)
  from k(3) a(1) have lo: "1 < \<bar>x\<bar> * (2 * 2 ^ nat k)" by (simp add: field_simps)
  show ?thesis
  proof (cases "1 / \<bar>x\<bar> = 2 ^ nat k")
    case True
    then have b: "binade x = - k" using False by (simp add: binade_def k_def Let_def)
    from True a(1) have x: "\<bar>x\<bar> = 1 / 2 ^ nat k" by (simp add: field_simps)
    have e0: "2 powi (- k) = (1::rat) / 2 ^ nat k" using k(1) by (simp add: power_int_def field_simps)
    have "2 powi (- k + 1) = (2::rat) powi (- k) * 2 powi 1" by (rule power_int_add) simp
    then have "2 powi (- k + 1) = (2::rat) powi (- k) * 2" by simp
    then have e1: "2 powi (- k + 1) = (2::rat) / 2 ^ nat k" by (simp add: e0)
    have "(1::rat) / 2 ^ nat k < 2 / 2 ^ nat k" by (simp add: divide_strict_right_mono)
    then show ?thesis unfolding b x e0 e1 by simp
  next
    case F: False
    then have b: "binade x = - k - 1" using False by (simp add: binade_def k_def Let_def)
    from F k(2) have "2 ^ nat k < 1 / \<bar>x\<bar>" by simp
    with a(1) have up': "\<bar>x\<bar> * 2 ^ nat k < 1" by (simp add: field_simps)
    have e2: "2 powi (- k - 1 + 1) = (1::rat) / 2 ^ nat k"
      using k(1) by (simp add: power_int_def field_simps)
    have "2 powi (- k + - 1) = (2::rat) powi (- k) * 2 powi (- 1)" by (rule power_int_add) simp
    then have "2 powi (- k - 1) = (2::rat) powi (- k) * 2 powi (- 1)" by simp
    then have e1: "2 powi (- k - 1) = (1::rat) / (2 * 2 ^ nat k)"
      using e2 by (simp add: power_int_minus field_simps)
    from lo have "1 / (2 * 2 ^ nat k) < \<bar>x\<bar>" by (simp add: field_simps)
    moreover from up' have "\<bar>x\<bar> < 1 / 2 ^ nat k" by (simp add: field_simps)
    ultimately show ?thesis unfolding b e1 e2 by simp
  qed
qed

lemma roundHalfEven_error: "\<bar>of_int (roundHalfEven q) - q\<bar> \<le> 1 / 2"
proof -
  define n where "n = \<lfloor>q\<rfloor>"
  define r where "r = q - of_int n"
  have r: "0 \<le> r" "r < 1" unfolding r_def n_def by linarith+
  have q: "q = of_int n + r" by (simp add: r_def)
  have m: "roundHalfEven q =
     (if r < 1 / 2 then n else if 1 / 2 < r then n + 1 else if even n then n else n + 1)"
    by (simp add: roundHalfEven_def Let_def n_def r_def)
  show ?thesis
  proof (cases "r < 1 / 2")
    case True
    with r m show ?thesis by (simp add: q)
  next
    case False
    note F = this
    show ?thesis
    proof (cases "1 / 2 < r")
      case True
      with F r m show ?thesis by (simp add: q)
    next
      case False
      with F have h: "r = 1 / 2" by simp
      with m have "roundHalfEven q = n \<or> roundHalfEven q = n + 1" by simp
      then show ?thesis unfolding q h by auto
    qed
  qed
qed

lemma double_error:
  assumes "x \<noteq> 0"
  shows "\<bar>double x - x\<bar> \<le> 2 powi (binade x - 53)"
    and "\<exists>m. double x = sgn x * of_int m * 2 powi (binade x - 52) \<and> 2 ^ 52 \<le> m \<and> m \<le> 2 ^ 53"
proof -
  define e where "e = binade x"
  define u :: rat where "u = 2 powi (e - 52)"
  define q where "q = \<bar>x\<bar> * 2 powi (52 - e)"
  define m where "m = roundHalfEven q"
  have u: "0 < u" by (simp add: u_def)
  have inv: "2 powi (52 - e) * u = (1::rat)"
    by (simp add: u_def flip: power_int_add)
  have d: "double x = sgn x * of_int m * u"
    using assms by (simp add: double_def Let_def e_def u_def q_def m_def)
  have qx: "q * u = \<bar>x\<bar>" using inv by (simp add: q_def mult.assoc)
  from binade_bounds [OF assms] have b: "2 powi e \<le> \<bar>x\<bar>" "\<bar>x\<bar> < 2 powi (e + 1)" by (simp_all add: e_def)
  have "2 powi e * 2 powi (52 - e) = (2::rat) ^ 52" by (simp flip: power_int_add)
  moreover have "2 powi (e + 1) * 2 powi (52 - e) = (2::rat) ^ 53" by (simp flip: power_int_add)
  moreover have "(0::rat) < 2 powi (52 - e)" by simp
  ultimately have q: "2 ^ 52 \<le> q" "q < 2 ^ 53"
    using b unfolding q_def by (metis mult_le_cancel_right_pos, metis mult_less_cancel_right_pos)
  have r: "\<bar>of_int m - q\<bar> \<le> 1 / 2" unfolding m_def by (rule roundHalfEven_error)
  have "x = sgn x * \<bar>x\<bar>" by (simp add: sgn_mult_abs)
  then have "double x - x = sgn x * ((of_int m - q) * u)"
    using qx by (simp add: d algebra_simps)
  then have "\<bar>double x - x\<bar> = \<bar>of_int m - q\<bar> * u"
    using assms u by (simp add: abs_mult abs_sgn_eq)
  also have "\<dots> \<le> 1 / 2 * u" using r u by (intro mult_right_mono) simp_all
  also have "\<dots> = 2 powi (e - 53)"
    by (simp add: u_def power_int_diff)
  finally show "\<bar>double x - x\<bar> \<le> 2 powi (binade x - 53)" by (simp add: e_def)
  from r have r': "- (1 / 2) \<le> of_int m - q" "of_int m - q \<le> 1 / 2" by linarith+
  from q(1) r'(1) have "(of_int (2 ^ 52 - 1) :: rat) < of_int m" by simp
  then have lo: "(2::int) ^ 52 - 1 < m" by (simp only: of_int_less_iff)
  from q(2) r'(2) have "(of_int m :: rat) < of_int (2 ^ 53 + 1)" by simp
  then have hi: "m < (2::int) ^ 53 + 1" by (simp only: of_int_less_iff)
  from lo hi have "(2::int) ^ 52 \<le> m" "m \<le> 2 ^ 53" by simp_all
  with d show "\<exists>m. double x = sgn x * of_int m * 2 powi (binade x - 52) \<and> 2 ^ 52 \<le> m \<and> m \<le> 2 ^ 53"
    unfolding e_def u_def by blast
qed

subsection \<open>Order, fixed points and relative error\<close>

text \<open>
  Rounding keeps the order and the sign, leaves a number with a significand of at most
  53 bits as it is (so it is idempotent and exact on integers up to \<open>2 ^ 53\<close>), and
  moves a number by at most \<open>2 ^ - 53\<close> of the result.
\<close>

lemma double_zero [simp]: "double 0 = 0"
  by (simp add: double_def)

lemma binade_minus: "binade (- x) = binade x"
  by (simp add: binade_def)

lemma double_minus: "double (- x) = - double x"
  by (simp add: double_def binade_minus Let_def)

lemma binade_less:
  assumes "x \<noteq> 0" "\<bar>x\<bar> < 2 powi k"
  shows "binade x < k"
proof (rule ccontr)
  assume "\<not> binade x < k"
  then have "k \<le> binade x" by simp
  then have "(2::rat) powi k \<le> 2 powi binade x" by (intro power_int_increasing) simp_all
  with binade_bounds [OF assms(1)] assms(2) show False by linarith
qed

lemma binade_ge:
  assumes "x \<noteq> 0" "2 powi k \<le> \<bar>x\<bar>"
  shows "k \<le> binade x"
proof (rule ccontr)
  assume "\<not> k \<le> binade x"
  then have "binade x + 1 \<le> k" by simp
  then have "(2::rat) powi (binade x + 1) \<le> 2 powi k" by (intro power_int_increasing) simp_all
  with binade_bounds [OF assms(1)] assms(2) show False by linarith
qed

lemma binade_unique:
  assumes "x \<noteq> 0" "2 powi k \<le> \<bar>x\<bar>" "\<bar>x\<bar> < 2 powi (k + 1)"
  shows "binade x = k"
  using binade_less [OF assms(1,3)] binade_ge [OF assms(1,2)] by simp

lemma scaled_bounds:
  assumes "x \<noteq> 0"
  shows "2 ^ 52 \<le> \<bar>x\<bar> * 2 powi (52 - binade x)" "\<bar>x\<bar> * 2 powi (52 - binade x) < 2 ^ 53"
proof -
  define e where "e = binade x"
  from binade_bounds [OF assms] have b: "2 powi e \<le> \<bar>x\<bar>" "\<bar>x\<bar> < 2 powi (e + 1)" by (simp_all add: e_def)
  have "2 powi e * 2 powi (52 - e) = (2::rat) ^ 52" by (simp flip: power_int_add)
  moreover have "2 powi (e + 1) * 2 powi (52 - e) = (2::rat) ^ 53" by (simp flip: power_int_add)
  moreover have "(0::rat) < 2 powi (52 - e)" by simp
  ultimately have "2 ^ 52 \<le> \<bar>x\<bar> * 2 powi (52 - e)" "\<bar>x\<bar> * 2 powi (52 - e) < 2 ^ 53"
    using b by (metis mult_le_cancel_right_pos, metis mult_less_cancel_right_pos)
  then show "2 ^ 52 \<le> \<bar>x\<bar> * 2 powi (52 - binade x)" "\<bar>x\<bar> * 2 powi (52 - binade x) < 2 ^ 53"
    by (simp_all add: e_def)
qed

lemma roundHalfEven_of_int [simp]: "roundHalfEven (of_int n) = n"
  by (simp add: roundHalfEven_def)

lemma roundHalfEven_range: "\<lfloor>q\<rfloor> \<le> roundHalfEven q \<and> roundHalfEven q \<le> \<lfloor>q\<rfloor> + 1"
  by (simp add: roundHalfEven_def Let_def)

lemma roundHalfEven_mono:
  assumes "q \<le> q'"
  shows "roundHalfEven q \<le> roundHalfEven q'"
proof -
  define n where "n = \<lfloor>q\<rfloor>"
  define n' where "n' = \<lfloor>q'\<rfloor>"
  have nn: "n \<le> n'" unfolding n_def n'_def using assms by (rule floor_mono)
  show ?thesis
  proof (cases "n < n'")
    case True
    then have "roundHalfEven q \<le> n'" using roundHalfEven_range [of q] by (simp add: n_def)
    also have "n' \<le> roundHalfEven q'" using roundHalfEven_range [of q'] by (simp add: n'_def)
    finally show ?thesis .
  next
    case False
    with nn have e: "n' = n" by simp
    define r where "r = q - of_int n"
    define r' where "r' = q' - of_int n"
    have rr: "r \<le> r'" using assms by (simp add: r_def r'_def)
    have m: "roundHalfEven q =
       (if r < 1 / 2 then n else if 1 / 2 < r then n + 1 else if even n then n else n + 1)"
      by (simp add: roundHalfEven_def Let_def n_def r_def)
    have m': "roundHalfEven q' =
       (if r' < 1 / 2 then n else if 1 / 2 < r' then n + 1 else if even n then n else n + 1)"
      using e by (simp add: roundHalfEven_def Let_def n'_def r'_def)
    from rr show ?thesis unfolding m m' by auto
  qed
qed

lemma double_pos_bounds:
  assumes "0 < x"
  shows "2 powi binade x \<le> double x" "double x \<le> 2 powi (binade x + 1)"
proof -
  from assms have nz: "x \<noteq> 0" by simp
  from double_error(2) [OF nz] obtain m where
    d: "double x = sgn x * of_int m * 2 powi (binade x - 52)" and m: "2 ^ 52 \<le> m" "m \<le> 2 ^ 53"
    by blast
  from assms d have d': "double x = of_int m * 2 powi (binade x - 52)" by simp
  have u: "(0::rat) < 2 powi (binade x - 52)" by simp
  from m(1) have "(2::rat) ^ 52 \<le> of_int m" by (metis of_int_le_iff of_int_numeral of_int_power)
  then have "2 ^ 52 * 2 powi (binade x - 52) \<le> of_int m * (2::rat) powi (binade x - 52)"
    using u by (intro mult_right_mono) simp_all
  moreover have "2 ^ 52 * 2 powi (binade x - 52) = (2::rat) powi binade x"
    by (simp add: power_int_diff)
  ultimately show "2 powi binade x \<le> double x" by (simp only: d')
  from m(2) have "of_int m \<le> (2::rat) ^ 53" by (metis of_int_le_iff of_int_numeral of_int_power)
  then have "of_int m * (2::rat) powi (binade x - 52) \<le> 2 ^ 53 * 2 powi (binade x - 52)"
    using u by (intro mult_right_mono) simp_all
  moreover have "2 ^ 53 * 2 powi (binade x - 52) = (2::rat) powi (binade x + 1)"
    by (simp add: power_int_diff power_int_add)
  ultimately show "double x \<le> 2 powi (binade x + 1)" by (simp only: d')
qed

lemma double_pos: "0 < x \<Longrightarrow> 0 < double x"
  using double_pos_bounds(1) [of x] zero_less_power_int [of "2::rat" "binade x"] by linarith

lemma double_nonneg: "0 \<le> x \<Longrightarrow> 0 \<le> double x"
  using double_pos [of x] by (cases "x = 0") (simp_all add: less_le)

lemma double_mono_pos:
  assumes "0 < x" "x \<le> y"
  shows "double x \<le> double y"
proof -
  from assms have y: "0 < y" by simp
  from assms y have nz: "x \<noteq> 0" "y \<noteq> 0" by simp_all
  have "\<bar>x\<bar> < 2 powi (binade y + 1)" using binade_bounds [OF nz(2)] assms y by simp
  from binade_less [OF nz(1) this] have le: "binade x \<le> binade y" by simp
  show ?thesis
  proof (cases "binade x = binade y")
    case True
    define s :: rat where "s = 2 powi (52 - binade y)"
    define u :: rat where "u = 2 powi (binade y - 52)"
    have s: "0 < s" and u: "0 < u" by (simp_all add: s_def u_def)
    have dx: "double x = of_int (roundHalfEven (x * s)) * u"
      using assms(1) True by (simp add: double_def Let_def s_def u_def)
    have dy: "double y = of_int (roundHalfEven (y * s)) * u"
      using y by (simp add: double_def Let_def s_def u_def)
    from assms(2) s have "x * s \<le> y * s" by simp
    then have "roundHalfEven (x * s) \<le> roundHalfEven (y * s)" by (rule roundHalfEven_mono)
    then have "(of_int (roundHalfEven (x * s)) :: rat) \<le> of_int (roundHalfEven (y * s))" by simp
    then show ?thesis unfolding dx dy using u by (intro mult_right_mono) simp_all
  next
    case False
    with le have "binade x + 1 \<le> binade y" by simp
    then have "(2::rat) powi (binade x + 1) \<le> 2 powi binade y" by (intro power_int_increasing) simp_all
    with double_pos_bounds(2) [OF assms(1)] double_pos_bounds(1) [OF y] show ?thesis by linarith
  qed
qed

lemma double_mono:
  assumes "x \<le> y"
  shows "double x \<le> double y"
proof -
  consider "0 < x" | "x \<le> 0" "0 \<le> y" | "y < 0" by linarith
  then show ?thesis
  proof cases
    case 1
    then show ?thesis using assms by (rule double_mono_pos)
  next
    case 2
    from 2(1) have "0 \<le> - x" by simp
    then have "0 \<le> double (- x)" by (rule double_nonneg)
    then have "double x \<le> 0" by (simp add: double_minus)
    also from 2(2) have "0 \<le> double y" by (rule double_nonneg)
    finally show ?thesis .
  next
    case 3
    then have "0 < - y" "- y \<le> - x" using assms by simp_all
    then have "double (- y) \<le> double (- x)" by (rule double_mono_pos)
    then show ?thesis by (simp add: double_minus)
  qed
qed

lemma double_representable:
  assumes m: "\<bar>m\<bar> \<le> 2 ^ 53"
  shows "double (of_int m * 2 powi k) = of_int m * 2 powi k"
proof (cases "m = 0")
  case True
  then show ?thesis by simp
next
  case False
  define y :: rat where "y = of_int m * 2 powi k"
  define e where "e = binade y"
  define j where "j = k + 52 - e"
  have nz: "y \<noteq> 0" using False by (simp add: y_def)
  define q where "q = \<bar>y\<bar> * 2 powi (52 - e)"
  have q: "2 ^ 52 \<le> q" "q < 2 ^ 53" using scaled_bounds [OF nz] by (simp_all add: q_def e_def)
  have qm: "q = of_int \<bar>m\<bar> * 2 powi j"
    by (simp add: q_def y_def j_def abs_mult power_int_add power_int_diff field_simps)
  have mr: "(of_int \<bar>m\<bar> :: rat) \<le> 2 ^ 53"
    using m by (metis of_int_le_iff of_int_numeral of_int_power)
  have mp: "(0::rat) < of_int \<bar>m\<bar>" using False by simp
  have "\<exists>n. q = of_int n"
  proof (cases "0 \<le> j")
    case True
    then have "(2::rat) powi j = of_int (2 ^ nat j)" by (simp add: power_int_def)
    then have "q = of_int (\<bar>m\<bar> * 2 ^ nat j)" by (simp add: qm)
    then show ?thesis by blast
  next
    case F: False
    have "j = - 1"
    proof (rule ccontr)
      assume "j \<noteq> - 1"
      with F have "j \<le> - 2" by simp
      then have "(2::rat) powi j \<le> 2 powi (- 2)" by (intro power_int_increasing) simp_all
      then have "(2::rat) powi j \<le> 1 / 4" by (simp add: power_int_def power_one_over)
      then have "q \<le> 2 ^ 53 * (1 / 4)"
        unfolding qm using mr mp by (intro mult_mono) simp_all
      with q(1) show False by simp
    qed
    then have h: "q = of_int \<bar>m\<bar> / 2" by (simp add: qm power_int_def)
    with q(1) have "(2::rat) ^ 53 \<le> of_int \<bar>m\<bar>" by simp
    with mr have "(of_int \<bar>m\<bar> :: rat) = 2 ^ 53" by simp
    with h have "q = of_int (2 ^ 52)" by simp
    then show ?thesis by blast
  qed
  then obtain n where n: "q = of_int n" by blast
  have inv: "2 powi (52 - e) * 2 powi (e - 52) = (1::rat)"
    by (simp flip: power_int_add)
  have "double y = sgn y * of_int (roundHalfEven q) * 2 powi (e - 52)"
    using nz by (simp add: double_def Let_def e_def q_def)
  also have "\<dots> = sgn y * q * 2 powi (e - 52)" by (simp add: n)
  also have "\<dots> = sgn y * \<bar>y\<bar> * (2 powi (52 - e) * 2 powi (e - 52))"
    by (simp add: q_def mult.assoc)
  also have "\<dots> = y" by (simp only: inv) (simp add: sgn_mult_abs)
  finally show ?thesis by (simp add: y_def)
qed

lemma double_of_int:
  assumes "\<bar>n\<bar> \<le> 2 ^ 53"
  shows "double (of_int n) = of_int n"
  using double_representable [OF assms, of 0] by simp

lemma double_numerals:
  "double 1 = 1" "double 10 = 10" "double 15 = 15" "double 25 = 25" "double 50 = 50"
  "double 60 = 60" "double 500 = 500" "double 50000 = 50000"
  using double_of_int [of 1] double_of_int [of 10] double_of_int [of 15] double_of_int [of 25]
    double_of_int [of 50] double_of_int [of 60] double_of_int [of 500] double_of_int [of 50000]
  by simp_all

lemma double_idem [simp]: "double (double x) = double x"
proof (cases "x = 0")
  case True
  then show ?thesis by simp
next
  case False
  from double_error(2) [OF False] obtain m where
    d: "double x = sgn x * of_int m * 2 powi (binade x - 52)" and m: "2 ^ 52 \<le> m" "m \<le> 2 ^ 53"
    by blast
  from False have "sgn x = 1 \<or> sgn x = - 1" by (auto simp: sgn_if)
  then obtain s :: int where s: "sgn x = of_int s" "\<bar>s\<bar> = 1"
    by (metis abs_1 abs_minus of_int_1 of_int_minus)
  have d': "double x = of_int (s * m) * 2 powi (binade x - 52)" by (simp add: d s)
  from m s(2) have "\<bar>s * m\<bar> \<le> 2 ^ 53" by (simp add: abs_mult)
  from double_representable [OF this, of "binade x - 52"] show ?thesis by (simp only: d')
qed

lemma double_rel_error: "\<bar>double x - x\<bar> \<le> 2 powi (- 53) * \<bar>double x\<bar>"
proof (cases "x = 0")
  case True
  then show ?thesis by simp
next
  case False
  have "2 powi binade x \<le> \<bar>double x\<bar>"
  proof (cases "0 < x")
    case True
    from double_pos_bounds(1) [OF True] double_pos [OF True] show ?thesis by simp
  next
    case F: False
    with False have p: "0 < - x" by simp
    from double_pos_bounds(1) [OF p] double_pos [OF p] show ?thesis
      by (simp add: double_minus binade_minus)
  qed
  then have "2 powi (- 53) * 2 powi binade x \<le> 2 powi (- 53) * \<bar>double x\<bar>"
    by (intro mult_left_mono) simp_all
  moreover have "2 powi (- 53) * 2 powi binade x = (2::rat) powi (binade x - 53)"
  proof -
    have "(2::rat) powi (- 53 + binade x) = 2 powi (- 53) * 2 powi binade x"
      by (rule power_int_add) simp
    moreover have "- 53 + binade x = binade x - 53" by simp
    ultimately show ?thesis by (simp only:)
  qed
  ultimately show ?thesis using double_error(1) [OF False] by linarith
qed

lemma double_less_literal:
  assumes "double v = v" "double c \<le> c"
  shows "double c < v \<longleftrightarrow> c < v"
proof
  assume "c < v" with assms(2) show "double c < v" by simp
next
  assume h: "double c < v"
  show "c < v"
  proof (rule ccontr)
    assume "\<not> c < v"
    then have "v \<le> c" by simp
    then have "double v \<le> double c" by (rule double_mono)
    with assms(1) h show False by simp
  qed
qed

subsection \<open>Computing a rounding\<close>

text \<open>
  To compute \<open>double x\<close> for a positive \<open>x\<close> it is enough to name the binade of \<open>x\<close>
  and either an integer less than half a unit away from the scaled \<open>x\<close> or, when the
  scaled \<open>x\<close> lies half-way between two integers, the even one of the two.
\<close>

lemma roundHalfEven_near:
  assumes "\<bar>q - of_int m\<bar> < 1 / 2"
  shows "roundHalfEven q = m"
proof (cases "of_int m \<le> q")
  case True
  with assms have f: "\<lfloor>q\<rfloor> = m" by (intro floor_unique) linarith+
  from True assms have "q - of_int m < 1 / 2" by linarith
  with f show ?thesis by (simp add: roundHalfEven_def Let_def)
next
  case False
  from False assms have lo: "of_int m - 1 / 2 < q" and hi: "q < of_int m" by linarith+
  have f: "\<lfloor>q\<rfloor> = m - 1"
  proof (rule floor_unique)
    show "of_int (m - 1) \<le> q" using lo by simp
    show "q < of_int (m - 1) + 1" using hi by simp
  qed
  from lo have "1 / 2 < q - of_int (m - 1)" by simp
  with f show ?thesis by (simp add: roundHalfEven_def Let_def)
qed

lemma roundHalfEven_tie:
  assumes "q = of_int n + 1 / 2"
  shows "roundHalfEven q = (if even n then n else n + 1)"
proof -
  have f: "\<lfloor>q\<rfloor> = n"
  proof (rule floor_unique)
    show "of_int n \<le> q" using assms by simp
    show "q < of_int n + 1" using assms by simp
  qed
  have "q - of_int n = 1 / 2" using assms by simp
  with f show ?thesis by (simp add: roundHalfEven_def Let_def)
qed

lemma double_eval:
  assumes "0 < x" "2 powi e \<le> x" "x < 2 powi (e + 1)"
    and "roundHalfEven (x * 2 powi (52 - e)) = m"
  shows "double x = of_int m * 2 powi (e - 52)"
proof -
  from assms(1-3) have "binade x = e" by (intro binade_unique) simp_all
  with assms(1,4) show ?thesis by (simp add: double_def Let_def)
qed

lemma double_scaled_ge1:
  assumes "2 ^ k \<le> x" "x < 2 * 2 ^ k" "roundHalfEven (x * 2 ^ 52 / 2 ^ k) = m"
    and "y = of_int m * 2 ^ k / 2 ^ 52"
  shows "double x = y"
proof -
  have p1: "(2::rat) powi int k = 2 ^ k" by simp
  have p2: "(2::rat) powi (int k + 1) = 2 * 2 ^ k" by (simp add: power_int_add)
  have p3: "x * (2::rat) powi (52 - int k) = x * 2 ^ 52 / 2 ^ k" by (simp add: power_int_diff)
  have p4: "of_int m * (2::rat) powi (int k - 52) = of_int m * 2 ^ k / 2 ^ 52" by (simp add: power_int_diff)
  have "(0::rat) < 2 ^ k" by simp
  with assms(1) have pos: "0 < x" by linarith
  have "double x = of_int m * 2 powi (int k - 52)"
  proof (rule double_eval [OF pos])
    show "2 powi int k \<le> x" unfolding p1 by (rule assms(1))
    show "x < 2 powi (int k + 1)" unfolding p2 by (rule assms(2))
    show "roundHalfEven (x * 2 powi (52 - int k)) = m" unfolding p3 by (rule assms(3))
  qed
  then show ?thesis unfolding p4 assms(4) .
qed

lemma double_scaled_lt1:
  assumes "1 / 2 ^ k \<le> x" "x < 2 / 2 ^ k" "roundHalfEven (x * 2 ^ 52 * 2 ^ k) = m"
    and "y = of_int m / (2 ^ k * 2 ^ 52)"
  shows "double x = y"
proof -
  have i: "(2::rat) powi int k = 2 ^ k" by (rule power_int_of_nat)
  have "(2::rat) powi (- int k) = inverse (2 powi int k)" by (rule power_int_minus)
  then have p1: "(2::rat) powi (- int k) = 1 / 2 ^ k" by (simp only: i inverse_eq_divide)
  have "(2::rat) powi (- int k + 1) = 2 powi (- int k) * 2 powi 1" by (rule power_int_add) simp
  then have p2: "(2::rat) powi (- int k + 1) = 2 / 2 ^ k" by (simp only: p1 power_int_1_right times_divide_eq_left mult_1)
  have a: "52 - - int k = 52 + int k" by simp
  have "(2::rat) powi (52 + int k) = 2 powi 52 * 2 powi int k" by (rule power_int_add) simp
  moreover have "(2::rat) powi 52 = 2 ^ 52" using power_int_of_nat [of "2::rat" 52] by simp
  ultimately have p3: "x * (2::rat) powi (52 - - int k) = x * 2 ^ 52 * 2 ^ k"
    by (simp only: a i mult.assoc)
  have b: "- int k - 52 = - (int k + 52)" by simp
  have "(2::rat) powi (int k + 52) = 2 powi int k * 2 powi 52" by (rule power_int_add) simp
  with \<open>(2::rat) powi 52 = 2 ^ 52\<close> have "(2::rat) powi (int k + 52) = 2 ^ k * 2 ^ 52" by (simp only: i)
  moreover have "(2::rat) powi (- (int k + 52)) = inverse (2 powi (int k + 52))" by (rule power_int_minus)
  ultimately have "(2::rat) powi (- int k - 52) = 1 / (2 ^ k * 2 ^ 52)"
    by (simp only: b inverse_eq_divide)
  then have p4: "of_int m * (2::rat) powi (- int k - 52) = of_int m / (2 ^ k * 2 ^ 52)"
    by (simp only: times_divide_eq_right mult_1_right)
  have "(0::rat) < 1 / 2 ^ k" by simp
  with assms(1) have pos: "0 < x" by linarith
  have "double x = of_int m * 2 powi (- int k - 52)"
  proof (rule double_eval [OF pos])
    show "2 powi (- int k) \<le> x" unfolding p1 by (rule assms(1))
    show "x < 2 powi (- int k + 1)" unfolding p2 by (rule assms(2))
    show "roundHalfEven (x * 2 powi (52 - - int k)) = m" unfolding p3 by (rule assms(3))
  qed
  then show ?thesis unfolding p4 assms(4) .
qed

lemma double_eval_ge1:
  assumes "2 ^ k \<le> x" "x < 2 * 2 ^ k" "\<bar>x * 2 ^ 52 / 2 ^ k - of_int m\<bar> < 1 / 2"
    and "y = of_int m * 2 ^ k / 2 ^ 52"
  shows "double x = y"
  using assms(1,2) roundHalfEven_near [OF assms(3)] assms(4) by (rule double_scaled_ge1)

lemma double_eval_lt1:
  assumes "1 / 2 ^ k \<le> x" "x < 2 / 2 ^ k" "\<bar>x * 2 ^ 52 * 2 ^ k - of_int m\<bar> < 1 / 2"
    and "y = of_int m / (2 ^ k * 2 ^ 52)"
  shows "double x = y"
  using assms(1,2) roundHalfEven_near [OF assms(3)] assms(4) by (rule double_scaled_lt1)

lemma double_tie_ge1:
  assumes "2 ^ k \<le> x" "x < 2 * 2 ^ k" "x * 2 ^ 52 / 2 ^ k = of_int n + 1 / 2"
    and "y = of_int (if even n then n else n + 1) * 2 ^ k / 2 ^ 52"
  shows "double x = y"
  using assms(1,2) roundHalfEven_tie [OF assms(3)] assms(4) by (rule double_scaled_ge1)

lemma double_tie_lt1:
  assumes "1 / 2 ^ k \<le> x" "x < 2 / 2 ^ k" "x * 2 ^ 52 * 2 ^ k = of_int n + 1 / 2"
    and "y = of_int (if even n then n else n + 1) / (2 ^ k * 2 ^ 52)"
  shows "double x = y"
  using assms(1,2) roundHalfEven_tie [OF assms(3)] assms(4) by (rule double_scaled_lt1)

subsection \<open>The neutrality test in doubles\<close>

text \<open>
  The channels are integers between 0 and 255, so a saturation other than \<open>3 / 20\<close>
  is at least \<open>1 / 5100\<close> away from it, far more than the rounding error of the
  division and of the literal \<open>0.15\<close>. The comparison \<open>saturation < 0.15\<close>
  therefore has the same outcome in doubles as in exact arithmetic.
\<close>

lemma double_near:
  assumes "x \<noteq> 0" "\<bar>x\<bar> < 2 powi k"
  shows "\<bar>double x - x\<bar> \<le> 2 powi (k - 54)"
proof -
  from binade_less [OF assms] have "binade x - 53 \<le> k - 54" by simp
  then have "(2::rat) powi (binade x - 53) \<le> 2 powi (k - 54)"
    by (intro power_int_increasing) simp_all
  with double_error(1) [OF assms(1)] show ?thesis by linarith
qed

lemma double_threshold: "double (3 / 20) = 5404319552844595 / 36028797018963968"
  by (rule double_eval_lt1 [of 3 _ 5404319552844595]) simp_all

lemma saturation_double_threshold:
  assumes mx: "0 < mx" "mx \<le> 255" and mn: "0 \<le> mn" "mn \<le> mx"
  shows "double (of_int (mx - mn) / of_int mx) < double (15 / 100) \<longleftrightarrow>
           (of_int (mx - mn) / of_int mx :: rat) < 15 / 100"
proof -
  define x :: rat where "x = of_int (mx - mn) / of_int mx"
  have x0: "0 \<le> x" and x1: "x \<le> 1"
    using mx mn by (simp_all add: x_def divide_le_eq)
  have p4: "(2::rat) powi (- 2) = 1 / 4" and p56: "(2::rat) powi (- 2 - 54) = 1 / 2 ^ 56"
    and p1: "(2::rat) powi 1 = 2" and p53: "(2::rat) powi (1 - 54) = 1 / 2 ^ 53"
    by (simp_all add: power_int_def power_one_over)
  have gap: "x < 15 / 100 \<Longrightarrow> x \<le> 15 / 100 - 1 / 5100"
    and gap': "15 / 100 < x \<Longrightarrow> 15 / 100 + 1 / 5100 \<le> x"
  proof -
    have mxr: "(0::rat) < of_int mx" "(of_int mx :: rat) \<le> 255" using mx by simp_all
    {
      assume "x < 15 / 100"
      then have "(of_int (20 * (mx - mn)) :: rat) < of_int (3 * mx)"
        using mxr by (simp add: x_def divide_less_eq field_simps)
      then have "20 * (mx - mn) < 3 * mx" by (simp only: of_int_less_iff)
      then have "20 * (mx - mn) + 1 \<le> 3 * mx" by simp
      then have "(of_int (20 * (mx - mn) + 1) :: rat) \<le> of_int (3 * mx)" by (simp only: of_int_le_iff)
      then have "20 * x * of_int mx + 1 \<le> 3 * of_int mx"
        using mxr by (simp add: x_def)
      moreover have "(of_int mx :: rat) / 255 \<le> 1" using mxr by simp
      ultimately have "20 * x * of_int mx + of_int mx / 255 \<le> 3 * of_int mx"
        by linarith
      then have "(20 * x + 1 / 255) * of_int mx \<le> 3 * of_int mx"
        by (simp add: algebra_simps)
      then have "20 * x + 1 / 255 \<le> 3" using mxr by simp
      then show "x \<le> 15 / 100 - 1 / 5100" by simp
    }
    {
      assume "15 / 100 < x"
      then have "(of_int (3 * mx) :: rat) < of_int (20 * (mx - mn))"
        using mxr by (simp add: x_def less_divide_eq field_simps)
      then have "3 * mx < 20 * (mx - mn)" by (simp only: of_int_less_iff)
      then have "3 * mx + 1 \<le> 20 * (mx - mn)" by simp
      then have "(of_int (3 * mx + 1) :: rat) \<le> of_int (20 * (mx - mn))" by (simp only: of_int_le_iff)
      then have "3 * of_int mx + 1 \<le> 20 * x * of_int mx"
        using mxr by (simp add: x_def)
      moreover have "(of_int mx :: rat) / 255 \<le> 1" using mxr by simp
      ultimately have "3 * of_int mx + of_int mx / 255 \<le> 20 * x * of_int mx"
        by linarith
      then have "(3 + 1 / 255) * of_int mx \<le> (20 * x) * of_int mx"
        by (simp add: algebra_simps)
      then have "3 + 1 / 255 \<le> 20 * x" using mxr by simp
      then show "15 / 100 + 1 / 5100 \<le> x" by simp
    }
  qed
  consider "x = 0" | "0 < x" "x < 15 / 100" | "x = 15 / 100" | "15 / 100 < x"
    using x0 by linarith
  then have "double x < double (15 / 100) \<longleftrightarrow> x < 15 / 100"
  proof cases
    case 1
    have "double 0 = 0" by (simp add: double_def)
    with 1 show ?thesis by (simp add: double_threshold)
  next
    case 2
    then have "x \<noteq> 0" "\<bar>x\<bar> < 2 powi (- 2)" by (simp_all add: p4)
    from double_near [OF this] have "\<bar>double x - x\<bar> \<le> 1 / 2 ^ 56" by (simp only: p56)
    then have "double x \<le> x + 1 / 2 ^ 56" by linarith
    with gap [OF 2(2)] have "double x \<le> 15 / 100 - 1 / 5100 + 1 / 2 ^ 56" by linarith
    also have "\<dots> < 5404319552844595 / 36028797018963968" by simp
    finally show ?thesis using 2 by (simp add: double_threshold)
  next
    case 3
    then have "double x = double (15 / 100)" by (simp only:)
    with 3 show ?thesis by (simp only: less_irrefl)
  next
    case 4
    with x1 have "x \<noteq> 0" "\<bar>x\<bar> < 2 powi 1" by (simp_all add: p1)
    from double_near [OF this] have "\<bar>double x - x\<bar> \<le> 1 / 2 ^ 53" by (simp only: p53)
    then have "x - 1 / 2 ^ 53 \<le> double x" by linarith
    with gap' [OF 4] have "15 / 100 + 1 / 5100 - 1 / 2 ^ 53 \<le> double x" by linarith
    moreover have "(5404319552844595 / 36028797018963968 :: rat) < 15 / 100 + 1 / 5100 - 1 / 2 ^ 53" by simp
    ultimately have "\<not> double x < double (15 / 100)" by (simp add: double_threshold)
    with 4 show ?thesis by simp
  qed
  then show ?thesis by (simp only: x_def)
qed

text \<open>
  On hex colours the neutrality test computed in doubles agrees with the exact one.
\<close>

lemma isNeutral_double:
  assumes "hexColor hex"
  shows "isNeutralR double hex \<longleftrightarrow> isNeutral hex"
proof -
  from assms obtain r g b where ch: "channels hex = Some (r, g, b)"
    and rng: "0 \<le> r" "r \<le> 255" "0 \<le> g" "g \<le> 255" "0 \<le> b" "b \<le> 255"
    by (rule hexColor_channels)
  from assms have ne: "hex \<noteq> []" by (auto simp: hexColor_def)
  define M where "M = max r (max g b)"
  define m where "m = min r (min g b)"
  have b: "0 \<le> m" "m \<le> M" "M \<le> 255" "0 \<le> M" using rng by (auto simp: M_def m_def)
  show ?thesis
  proof (cases "M = 0")
    case True
    then have "saturationR double r g b = 0" "saturation r g b = 0"
      by (simp_all add: saturationR_def saturation_def M_def)
    then show ?thesis using ne ch by (simp add: isNeutralR_def isNeutral_def double_threshold)
  next
    case False
    with b have M: "0 < M" by simp
    have "saturationR double r g b = double (of_int (M - m) / of_int M)"
      and "saturation r g b = of_int (M - m) / of_int M"
      using False by (simp_all add: saturationR_def saturation_def M_def m_def Let_def)
    with saturation_double_threshold [OF M b(3) b(1) b(2)] show ?thesis
      using ne ch by (simp add: isNeutralR_def isNeutral_def)
  qed
qed

section \<open>The role selector: properties\<close>

lemma sortDescBy_sorted: "sorted_wrt (\<lambda>a b. key a \<ge> key b) (sortDescBy key xs)"
  using sorted_sort_key [of "\<lambda>x. - key x" xs] by (simp add: sortDescBy_def sorted_map)

lemma sortDescBy_stable: "filter (\<lambda>x. key x = k) (sortDescBy key xs) = filter (\<lambda>x. key x = k) xs"
  using sort_key_stable [of "\<lambda>x. - key x" "- k" xs] by (simp add: sortDescBy_def)

lemma set_sortDescBy [simp]: "set (sortDescBy key xs) = set xs"
  by (simp add: sortDescBy_def)

lemma length_sortDescBy [simp]: "length (sortDescBy key xs) = length xs"
  by (simp add: sortDescBy_def)

lemma sortedColors_valid: "(c, d) \<in> set (sortedColors cs) \<Longrightarrow> isValidBrandColor c \<and> c \<noteq> []"
  by (auto simp: sortedColors_def isValidBrandColor_def)

lemma find_in_set: "find P xs = Some x \<Longrightarrow> x \<in> set xs \<and> P x"
  by (auto simp: find_Some_iff)

lemma button_pred:
  "(truthyNum (catValue d Button) \<and> exceeds (catValue d Button) 50) = (categorySubtotal d Button > 50)"
  by (auto simp: truthyNum_def exceeds_def catValue_def categorySubtotal_def split: option.split)

lemma primaryColor_cascade:
  "primaryColor ranked =
     (case find (\<lambda>(c, d). categorySubtotal d Button > 50 \<and> \<not> isNeutralOrDark c) ranked of
        Some e \<Rightarrow> Some e
      | None \<Rightarrow>
     (case find (\<lambda>(c, d). \<not> isNeutralOrDark c \<and> total d > 50) ranked of
        Some e \<Rightarrow> Some e
      | None \<Rightarrow> find (\<lambda>(c, d). categorySubtotal d Button > 50) ranked))"
proof -
  have 1: "(\<lambda>(c, d). truthyNum (catValue d Button) \<and> exceeds (catValue d Button) 50 \<and> \<not> isNeutralOrDark c)
         = (\<lambda>(c, d). categorySubtotal d Button > 50 \<and> \<not> isNeutralOrDark c)"
    using button_pred by (auto simp: fun_eq_iff)
  have 3: "(\<lambda>(c, d). truthyNum (catValue d Button) \<and> exceeds (catValue d Button) 50)
         = (\<lambda>(c, d :: scoreEntry). categorySubtotal d Button > 50)"
    using button_pred by (auto simp: fun_eq_iff)
  show ?thesis
    unfolding primaryColor_def Let_def 1 3 by (simp split: option.split)
qed

lemma orElse_colorOf:
  assumes "e = None \<or> (\<exists>c d. e = Some (c, d) \<and> c \<noteq> [])"
  shows "orElse (map_option fst e) b = (case e of Some (c, d) \<Rightarrow> Some c | None \<Rightarrow> b)"
  using assms by (auto simp: orElse_def truthyStr_def)

lemma nthOpt_0: "nthOpt xs 0 = (case xs of [] \<Rightarrow> None | x # _ \<Rightarrow> Some x)"
  by (cases xs) (simp_all add: nthOpt_def)

lemma primaryColor_in_ranked:
  "primaryColor ranked = Some e \<Longrightarrow> e \<in> set ranked"
  by (auto simp: primaryColor_cascade split: option.splits dest: find_in_set)

text \<open>
  Claim C2. The ranked list \<open>sortedColors\<close> holds the entries whose colour passes
  \<open>isValidBrandColor\<close>, in descending order of \<open>total\<close>, entries of equal total in
  their order of first observation. The primary colour is the colour of the first ranked
  entry with a button subtotal above \<open>50\<close> that is not neutral-or-dark; failing that, of
  the first entry that is not neutral-or-dark and has a total above \<open>50\<close>; failing
  that, of the first entry with a button subtotal above \<open>50\<close>; failing that, of the
  first ranked entry; and \<open>null\<close> when the ranked list is empty.
\<close>

theorem primary_selection_cascade:
  "primary (classifyRoles cs bgs ts) =
     (case find (\<lambda>(c, d). categorySubtotal d Button > 50 \<and> \<not> isNeutralOrDark c) (sortedColors cs) of
        Some (c, d) \<Rightarrow> Some c
      | None \<Rightarrow>
     (case find (\<lambda>(c, d). \<not> isNeutralOrDark c \<and> total d > 50) (sortedColors cs) of
        Some (c, d) \<Rightarrow> Some c
      | None \<Rightarrow>
     (case find (\<lambda>(c, d). categorySubtotal d Button > 50) (sortedColors cs) of
        Some (c, d) \<Rightarrow> Some c
      | None \<Rightarrow>
     (case sortedColors cs of (c, d) # _ \<Rightarrow> Some c | [] \<Rightarrow> None)))) \<and>
   sorted_wrt (\<lambda>a b. total (snd a) \<ge> total (snd b)) (sortedColors cs) \<and>
   (\<forall>t. filter (\<lambda>e. total (snd e) = t) (sortedColors cs)
        = filter (\<lambda>e. total (snd e) = t) (filter (\<lambda>e. isValidBrandColor (fst e)) cs))"
proof -
  let ?r = "sortedColors cs"
  have key: "\<And>e. e \<in> set ?r \<Longrightarrow> fst e \<noteq> []"
    using sortedColors_valid [of _ _ cs] by (metis prod.collapse)
  have p: "primaryColor ?r = None \<or> (\<exists>c d. primaryColor ?r = Some (c, d) \<and> c \<noteq> [])"
    using primaryColor_in_ranked [of ?r] key by (cases "primaryColor ?r") auto
  have h: "nthOpt ?r 0 = None \<or> (\<exists>c d. nthOpt ?r 0 = Some (c, d) \<and> c \<noteq> [])"
  proof (cases ?r)
    case Nil
    then show ?thesis by (simp add: nthOpt_0)
  next
    case (Cons e es)
    then have "fst e \<noteq> []" using key [of e] by simp
    with Cons show ?thesis by (cases e) (simp add: nthOpt_0)
  qed
  have "primary (classifyRoles cs bgs ts)
      = (case primaryColor ?r of Some (c, d) \<Rightarrow> Some c
         | None \<Rightarrow> (case nthOpt ?r 0 of Some (c, d) \<Rightarrow> Some c | None \<Rightarrow> None))"
    unfolding classifyRoles_def Let_def
    using p h by (auto simp: orElse_def truthyStr_def split: option.splits)
  also have "\<dots> = (case find (\<lambda>(c, d). categorySubtotal d Button > 50 \<and> \<not> isNeutralOrDark c) ?r of
        Some (c, d) \<Rightarrow> Some c
      | None \<Rightarrow>
     (case find (\<lambda>(c, d). \<not> isNeutralOrDark c \<and> total d > 50) ?r of
        Some (c, d) \<Rightarrow> Some c
      | None \<Rightarrow>
     (case find (\<lambda>(c, d). categorySubtotal d Button > 50) ?r of
        Some (c, d) \<Rightarrow> Some c
      | None \<Rightarrow>
     (case ?r of (c, d) # _ \<Rightarrow> Some c | [] \<Rightarrow> None))))"
    by (simp add: primaryColor_cascade nthOpt_0 split: option.split list.split)
  finally have main: "primary (classifyRoles cs bgs ts) = \<dots>" .
  have s: "sorted_wrt (\<lambda>a b. total (snd a) \<ge> total (snd b)) ?r"
    using sortDescBy_sorted [of "\<lambda>(c, d). total d"] by (simp add: sortedColors_def case_prod_unfold)
  have st: "\<forall>t. filter (\<lambda>e. total (snd e) = t) ?r
        = filter (\<lambda>e. total (snd e) = t) (filter (\<lambda>e. isValidBrandColor (fst e)) cs)"
    unfolding sortedColors_def case_prod_unfold by (intro allI sortDescBy_stable)
  from main s st show ?thesis by blast
qed















lemma dedupe_foldl:
  "\<exists>ys. foldl (\<lambda>seen x. if x \<in> set seen then seen else seen @ [x]) acc xs = acc @ ys \<and>
        set ys = set xs - set acc \<and> (distinct acc \<longrightarrow> distinct (acc @ ys))"
proof (induction xs arbitrary: acc)
  case Nil
  then show ?case by simp
next
  case (Cons x xs)
  show ?case
  proof (cases "x \<in> set acc")
    case True
    from Cons.IH [of acc] obtain ys where
      "foldl (\<lambda>seen x. if x \<in> set seen then seen else seen @ [x]) acc xs = acc @ ys"
      "set ys = set xs - set acc" "distinct acc \<longrightarrow> distinct (acc @ ys)" by blast
    with True show ?thesis by (intro exI [of _ ys]) auto
  next
    case False
    from Cons.IH [of "acc @ [x]"] obtain ys where
      ys: "foldl (\<lambda>seen x. if x \<in> set seen then seen else seen @ [x]) (acc @ [x]) xs = (acc @ [x]) @ ys"
      "set ys = set xs - set (acc @ [x])" "distinct (acc @ [x]) \<longrightarrow> distinct ((acc @ [x]) @ ys)" by blast
    with False show ?thesis by (intro exI [of _ "x # ys"]) auto
  qed
qed

lemma set_dedupe [simp]: "set (dedupe xs) = set xs"
  using dedupe_foldl [of "[]" xs] by (auto simp: dedupe_def)

lemma distinct_dedupe [simp]: "distinct (dedupe xs)"
  using dedupe_foldl [of "[]" xs] by (auto simp: dedupe_def)

lemma dedupe_Cons: "\<exists>ys. dedupe (x # xs) = x # ys"
  using dedupe_foldl [of "[x]" xs] by (auto simp: dedupe_def)

lemma length_dedupe: "length (dedupe xs) \<le> length xs"
  by (metis distinct_card distinct_dedupe card_length set_dedupe)

text \<open>
  Claim C5, as amended. The candidates with an area strictly above \<open>50000\<close> are sorted by
  area, largest first (equal areas in their order of observation); the reported
  backgrounds are the distinct colours of the first three candidates of that list, in
  that order, so fewer than three colours are reported when the three largest candidates
  share a colour. When no candidate colour is the empty string, the single background is
  the colour of the largest qualifying candidate, which is the first reported background,
  and \<open>"#ffffff"\<close> when no candidate qualifies.
\<close>

theorem backgrounds_selection:
  "backgrounds (classifyRoles cs bgs ts) =
     dedupe (map colorArea.color (take 3 (sortDescBy area (filter (\<lambda>b. area b > 50000) bgs)))) \<and>
   distinct (backgrounds (classifyRoles cs bgs ts)) \<and>
   length (backgrounds (classifyRoles cs bgs ts)) \<le> 3 \<and>
   sorted_wrt (\<lambda>a b. area a \<ge> area b) (sortDescBy area (filter (\<lambda>b. area b > 50000) bgs)) \<and>
   (\<forall>a. filter (\<lambda>b. area b = a) (sortDescBy area (filter (\<lambda>b. area b > 50000) bgs))
        = filter (\<lambda>b. area b = a) (filter (\<lambda>b. area b > 50000) bgs)) \<and>
   ((\<forall>b \<in> set bgs. colorArea.color b \<noteq> []) \<longrightarrow>
      background (classifyRoles cs bgs ts) =
        (case sortDescBy area (filter (\<lambda>b. area b > 50000) bgs) of
           [] \<Rightarrow> ''#ffffff'' | b # _ \<Rightarrow> colorArea.color b) \<and>
      background (classifyRoles cs bgs ts) =
        (case backgrounds (classifyRoles cs bgs ts) of [] \<Rightarrow> ''#ffffff'' | c # _ \<Rightarrow> c))"
proof -
  let ?q = "sortDescBy area (filter (\<lambda>b. area b > 50000) bgs)"
  let ?r = "classifyRoles cs bgs ts"
  have b: "backgrounds ?r = dedupe (map colorArea.color (take 3 ?q))"
    by (simp add: classifyRoles_def Let_def bgColors_def)
  have g: "background ?r = orDefault (nthOpt (map colorArea.color (take 3 ?q)) 0) ''#ffffff''"
    by (simp add: classifyRoles_def Let_def bgColors_def)
  have d: "distinct (backgrounds ?r)" by (simp add: b)
  have l: "length (backgrounds ?r) \<le> 3"
    using length_dedupe [of "map colorArea.color (take 3 ?q)"] by (simp add: b)
  have s: "sorted_wrt (\<lambda>a b. area a \<ge> area b) ?q" by (rule sortDescBy_sorted)
  have st: "\<forall>a. filter (\<lambda>b. area b = a) ?q = filter (\<lambda>b. area b = a) (filter (\<lambda>b. area b > 50000) bgs)"
    by (intro allI sortDescBy_stable)
  have bg: "background ?r = (case ?q of [] \<Rightarrow> ''#ffffff'' | b # _ \<Rightarrow> colorArea.color b) \<and>
            background ?r = (case backgrounds ?r of [] \<Rightarrow> ''#ffffff'' | c # _ \<Rightarrow> c)"
    if ne: "\<forall>b \<in> set bgs. colorArea.color b \<noteq> []"
  proof (cases ?q)
    case Nil
    then show ?thesis by (simp add: g b nthOpt_0 orDefault_def dedupe_def)
  next
    case (Cons x xs)
    then have "x \<in> set ?q" by simp
    then have "x \<in> set bgs" by simp
    with ne have x: "colorArea.color x \<noteq> []" by blast
    obtain ys where ys: "dedupe (colorArea.color x # map colorArea.color (take 2 xs)) = colorArea.color x # ys"
      using dedupe_Cons [of "colorArea.color x" "map colorArea.color (take 2 xs)"] by blast
    have t: "take 3 (x # xs) = x # take 2 xs" by (simp add: take_Cons')
    from Cons x ys show ?thesis
      by (simp add: g b t nthOpt_0 orDefault_def)
  qed
  from b d l s st bg show ?thesis by blast
qed

section \<open>The logo ranker: properties\<close>

lemma logoScore_sum:
  "logoScore logo =
     (if logoCandidate.format logo = ''svg'' then 50 else if logoCandidate.format logo = ''png'' then 30 else 0) +
     (if 500 < double (logoCandidate.width logo * logoCandidate.height logo) \<and>
         double (logoCandidate.width logo * logoCandidate.height logo) < 50000 then 30 else 0) +
     (if logoCandidate.inHeader logo then 40 else 0) +
     (if hasLogoKeyword logo then 30 else 0)"
  by (simp add: logoScore_def Let_def)

lemma product_between:
  "500 < double x \<and> double x < 50000 \<longrightarrow> 500 < x \<and> x < 50000"
proof (intro impI conjI)
  assume a: "500 < double x \<and> double x < 50000"
  show "500 < x"
  proof (rule ccontr)
    assume "\<not> 500 < x"
    then have "x \<le> 500" by simp
    then have "double x \<le> double 500" by (rule double_mono)
    with a show False by (simp add: double_numerals)
  qed
  show "x < 50000"
  proof (rule ccontr)
    assume "\<not> x < 50000"
    then have "50000 \<le> x" by simp
    then have "double 50000 \<le> double x" by (rule double_mono)
    with a show False by (simp add: double_numerals)
  qed
qed

text \<open>
  Claim C7. The score of a logo candidate is the format bonus (\<open>50\<close> for \<open>svg\<close>,
  \<open>30\<close> for \<open>png\<close>, \<open>0\<close> otherwise) plus \<open>30\<close> when width times height, the
  product as the engine computes it, lies strictly between \<open>500\<close> and \<open>50000\<close>, plus
  \<open>40\<close> when in the header, plus \<open>30\<close> with a logo keyword. The computed product is
  the exact product rounded to double: when it lies strictly between the two bounds so
  does the exact product, and it is the exact product for integer sizes with a product
  of at most \<open>2 ^ 53\<close>. The scored candidates are in descending order of score,
  candidates of equal score in their order of observation. The winner \<open>best\<close> is the
  first of them and is undefined exactly when there is no candidate; its \<open>src\<close>,
  \<open>format\<close>, \<open>width\<close> and \<open>height\<close> are reported (each through \<open>|| null\<close>), all
  \<open>null\<close> without a winner. The alternatives are the second to fourth scored candidates,
  reduced to source and format.
\<close>

theorem logo_ranking:
  "logoScore logo =
     (if logoCandidate.format logo = ''svg'' then 50 else if logoCandidate.format logo = ''png'' then 30 else 0) +
     (if 500 < double (logoCandidate.width logo * logoCandidate.height logo) \<and>
         double (logoCandidate.width logo * logoCandidate.height logo) < 50000 then 30 else 0) +
     (if logoCandidate.inHeader logo then 40 else 0) +
     (if hasLogoKeyword logo then 30 else 0) \<and>
   (500 < double (logoCandidate.width logo * logoCandidate.height logo) \<and>
    double (logoCandidate.width logo * logoCandidate.height logo) < 50000 \<longrightarrow>
      500 < logoCandidate.width logo * logoCandidate.height logo \<and>
      logoCandidate.width logo * logoCandidate.height logo < 50000) \<and>
   (\<forall>m n. logoCandidate.width logo = of_int m \<and> logoCandidate.height logo = of_int n \<and>
      \<bar>m * n\<bar> \<le> 2 ^ 53 \<longrightarrow>
      double (logoCandidate.width logo * logoCandidate.height logo) =
        logoCandidate.width logo * logoCandidate.height logo) \<and>
   sorted_wrt (\<lambda>a b. snd a \<ge> snd b) (scored logoData) \<and>
   (\<forall>s. filter (\<lambda>x. snd x = s) (scored logoData)
        = filter (\<lambda>x. snd x = s) (map (\<lambda>l. (l, logoScore l)) logoData)) \<and>
   best logoData = (case scored logoData of [] \<Rightarrow> None | x # _ \<Rightarrow> Some x) \<and>
   (best logoData = None) = (logoData = []) \<and>
   logoResult.url (extractLogo logoData) =
     (case best logoData of None \<Rightarrow> None | Some (l, s) \<Rightarrow> orElse (src l) None) \<and>
   logoResult.format (extractLogo logoData) =
     (case best logoData of None \<Rightarrow> None | Some (l, s) \<Rightarrow> orElse (Some (logoCandidate.format l)) None) \<and>
   logoResult.width (extractLogo logoData) =
     (case best logoData of None \<Rightarrow> None | Some (l, s) \<Rightarrow> orNullNum (Some (logoCandidate.width l))) \<and>
   logoResult.height (extractLogo logoData) =
     (case best logoData of None \<Rightarrow> None | Some (l, s) \<Rightarrow> orNullNum (Some (logoCandidate.height l))) \<and>
   alternatives (extractLogo logoData) =
     map (\<lambda>(l, s). \<lparr>alternative.url = src l, alternative.format = logoCandidate.format l\<rparr>)
       (take 3 (drop 1 (scored logoData)))"
proof -
  have s: "sorted_wrt (\<lambda>a b. snd a \<ge> snd b) (scored logoData)"
    unfolding scored_def by (rule sortDescBy_sorted)
  have st: "\<forall>s. filter (\<lambda>x. snd x = s) (scored logoData)
        = filter (\<lambda>x. snd x = s) (map (\<lambda>l. (l, logoScore l)) logoData)"
    unfolding scored_def by (intro allI sortDescBy_stable)
  have b: "best logoData = (case scored logoData of [] \<Rightarrow> None | x # _ \<Rightarrow> Some x)"
    by (simp add: best_def nthOpt_0)
  have len: "length (scored logoData) = length logoData" by (simp add: scored_def)
  have e: "(best logoData = None) = (logoData = [])"
  proof (cases "scored logoData")
    case Nil
    then have "best logoData = None" by (simp add: b)
    moreover from Nil len have "logoData = []" by simp
    ultimately show ?thesis by blast
  next
    case (Cons x xs)
    then have "best logoData \<noteq> None" by (simp add: b)
    moreover from Cons len have "logoData \<noteq> []" by auto
    ultimately show ?thesis by blast
  qed
  have u: "logoResult.url (extractLogo logoData) =
     (case best logoData of None \<Rightarrow> None | Some (l, s) \<Rightarrow> orElse (src l) None)"
    by (simp add: extractLogo_def Let_def orElse_def truthyStr_def split: option.split)
  have f: "logoResult.format (extractLogo logoData) =
     (case best logoData of None \<Rightarrow> None | Some (l, s) \<Rightarrow> orElse (Some (logoCandidate.format l)) None)"
    by (simp add: extractLogo_def Let_def orElse_def truthyStr_def split: option.split)
  have w: "logoResult.width (extractLogo logoData) =
     (case best logoData of None \<Rightarrow> None | Some (l, s) \<Rightarrow> orNullNum (Some (logoCandidate.width l)))"
    by (simp add: extractLogo_def Let_def orNullNum_def split: option.split)
  have h: "logoResult.height (extractLogo logoData) =
     (case best logoData of None \<Rightarrow> None | Some (l, s) \<Rightarrow> orNullNum (Some (logoCandidate.height l)))"
    by (simp add: extractLogo_def Let_def orNullNum_def split: option.split)
  have a: "alternatives (extractLogo logoData) =
     map (\<lambda>(l, s). \<lparr>alternative.url = src l, alternative.format = logoCandidate.format l\<rparr>)
       (take 3 (drop 1 (scored logoData)))"
    by (simp add: extractLogo_def Let_def)
  have x: "500 < double (logoCandidate.width logo * logoCandidate.height logo) \<and>
    double (logoCandidate.width logo * logoCandidate.height logo) < 50000 \<longrightarrow>
      500 < logoCandidate.width logo * logoCandidate.height logo \<and>
      logoCandidate.width logo * logoCandidate.height logo < 50000"
    by (rule product_between)
  have i: "\<forall>m n. logoCandidate.width logo = of_int m \<and> logoCandidate.height logo = of_int n \<and>
      \<bar>m * n\<bar> \<le> 2 ^ 53 \<longrightarrow>
      double (logoCandidate.width logo * logoCandidate.height logo) =
        logoCandidate.width logo * logoCandidate.height logo"
    using double_of_int by (metis of_int_mult)
  from logoScore_sum [of logo] x i s st b e u f w h a show ?thesis by blast
qed

section \<open>The aggregator: properties\<close>

lemma saturationR_double: "saturationR double r g b = double (saturation r g b)"
  by (simp add: saturationR_def saturation_def Let_def)

lemma saturationR_double_bounds:
  assumes "0 \<le> r" "0 \<le> g" "0 \<le> b"
  shows "0 \<le> saturationR double r g b \<and> saturationR double r g b \<le> 1"
proof -
  from saturation_bounds [OF assms] have s: "0 \<le> saturation r g b" "saturation r g b \<le> 1" by simp_all
  from s(1) have "0 \<le> double (saturation r g b)" by (rule double_nonneg)
  moreover from s(2) have "double (saturation r g b) \<le> double 1" by (rule double_mono)
  ultimately show ?thesis by (simp add: saturationR_double double_numerals)
qed

lemma penalty_bounds: "0 \<le> double (3 / 10) \<and> double (3 / 10) \<le> 1"
proof -
  have "0 \<le> double (3 / 10)" by (rule double_nonneg) simp
  moreover have "double (3 / 10) \<le> double 1" by (rule double_mono) simp
  ultimately show ?thesis by (simp add: double_numerals)
qed

lemma getColorVibrancy_double: "double (getColorVibrancy c) = getColorVibrancy c"
  by (simp add: getColorVibrancy_def Let_def split: option.split)

lemma getColorVibrancy_bounds:
  assumes "hexColor c"
  shows "0 \<le> getColorVibrancy c \<and> getColorVibrancy c \<le> 1"
proof -
  from assms obtain r g b where ch: "channels c = Some (r, g, b)"
    and rng: "0 \<le> r" "0 \<le> g" "0 \<le> b"
    by (rule hexColor_channels)
  from assms have ne: "c \<noteq> []" by (auto simp: hexColor_def)
  define sat where "sat = saturationR double r g b"
  from saturationR_double_bounds [OF rng] have s: "0 \<le> sat" "sat \<le> 1" by (simp_all add: sat_def)
  obtain pen where v: "getColorVibrancy c = double (sat * pen)" and p: "0 \<le> pen" "pen \<le> 1"
  proof (cases "luminance r g b < double (15 / 100) \<or> luminance r g b > double (85 / 100)")
    case True
    then have "getColorVibrancy c = double (sat * double (3 / 10))"
      using ne ch by (simp add: getColorVibrancy_def sat_def)
    with penalty_bounds that show thesis by blast
  next
    case False
    then have "getColorVibrancy c = double (sat * 1)"
      using ne ch by (simp add: getColorVibrancy_def sat_def)
    with that [of 1] show thesis by simp
  qed
  from s p have "0 \<le> sat * pen" "sat * pen \<le> 1" by (simp_all add: mult_le_one)
  then have "0 \<le> double (sat * pen)" "double (sat * pen) \<le> double 1"
    by (auto intro: double_nonneg double_mono)
  then show ?thesis by (simp add: v double_numerals)
qed

text \<open>
  The border test compares the vibrancy with the double nearest to \<open>0.3\<close>, which lies
  below \<open>0.3\<close>. A vibrancy is a double, and no double lies strictly between the two, so
  the test is the same as a comparison with \<open>0.3\<close> itself.
\<close>

lemma double_three_tenths: "double (3 / 10) = 5404319552844595 / 18014398509481984"
  by (rule double_eval_lt1 [of 2 _ 5404319552844595]) simp_all

lemma border_test: "double (3 / 10) < getColorVibrancy c \<longleftrightarrow> 3 / 10 < getColorVibrancy c"
proof (rule double_less_literal)
  show "double (getColorVibrancy c) = getColorVibrancy c" by (rule getColorVibrancy_double)
  show "double (3 / 10) \<le> 3 / 10" by (simp add: double_three_tenths)
qed

lemma hasKey_iff: "hasKey m k \<longleftrightarrow> k \<in> fst ` set m"
  by (simp add: hasKey_def map_of_eq_None_iff)

lemma setKey_keys:
  "map fst (setKey m k v) = (if k \<in> fst ` set m then map fst m else map fst m @ [k])"
  by (auto simp: setKey_def hasKey_iff case_prod_unfold intro!: map_idI)

lemma setKey_entries:
  "(k', v') \<in> set (setKey m k v) \<Longrightarrow> (k', v') \<in> set m \<or> (k' = k \<and> v' = v)"
  by (auto simp: setKey_def split: if_splits)

lemma setKey_nonempty: "setKey m k v \<noteq> []"
  by (auto simp: setKey_def hasKey_iff)

lemma countOccurrences_foldl:
  assumes "\<forall>(c, n) \<in> set acc. c \<in> S \<and> 1 \<le> n" and "set xs \<subseteq> S"
  shows "\<forall>(c, n) \<in> set (foldl (\<lambda>counts c. setKey counts c
            ((case map_of counts c of None \<Rightarrow> 0 | Some n \<Rightarrow> n) + 1)) acc xs). c \<in> S \<and> (1::nat) \<le> n"
  using assms
proof (induction xs arbitrary: acc)
  case Nil
  then show ?case by simp
next
  case (Cons x xs)
  let ?acc = "setKey acc x ((case map_of acc x of None \<Rightarrow> 0 | Some n \<Rightarrow> n) + 1)"
  have "\<forall>(c, n) \<in> set ?acc. c \<in> S \<and> 1 \<le> n"
    using Cons.prems by (auto dest!: setKey_entries)
  with Cons.IH [of ?acc] Cons.prems(2) show ?case by simp
qed

lemma countOccurrences_entries:
  "(c, n) \<in> set (countOccurrences xs) \<Longrightarrow> c \<in> set xs \<and> 1 \<le> n"
  using countOccurrences_foldl [of "[]" "set xs" xs] by (auto simp: countOccurrences_def)

lemma length_setKey: "length m \<le> length (setKey m k v) \<and> length (setKey m k v) \<le> Suc (length m)"
  by (simp add: setKey_def)

lemma length_countOccurrences_foldl:
  "length (foldl (\<lambda>counts c. setKey counts c
            ((case map_of counts c of None \<Rightarrow> 0 | Some n \<Rightarrow> n) + (1::nat))) acc xs) \<le> length acc + length xs"
proof (induction xs arbitrary: acc)
  case Nil
  then show ?case by simp
next
  case (Cons x xs)
  let ?acc = "setKey acc x ((case map_of acc x of None \<Rightarrow> 0 | Some n \<Rightarrow> n) + 1)"
  from Cons.IH [of ?acc] length_setKey [of acc x "(case map_of acc x of None \<Rightarrow> 0 | Some n \<Rightarrow> n) + 1"]
  show ?case by simp
qed

lemma length_countOccurrences: "length (countOccurrences xs) \<le> length xs"
  using length_countOccurrences_foldl [of "[]" xs] by (simp add: countOccurrences_def)

lemma orZero_Some [simp]: "orZero (Some v) = v"
  by (simp add: orZero_def)

lemma orZero_None [simp]: "orZero None = 0"
  by (simp add: orZero_def)

lemma updated_entryOk:
  assumes t: "0 \<le> total e" and v: "\<forall>(c, v) \<in> set (categories e). 0 < v"
    and d: "distinct (map fst (categories e))" and s: "0 < s"
  shows "entryOk (e\<lparr>total := double (total e + s),
                    categories := setKey (categories e) cat
                                    (double (orZero (map_of (categories e) cat) + s))\<rparr>)"
proof -
  have z: "0 \<le> orZero (map_of (categories e) cat)"
  proof (cases "map_of (categories e) cat")
    case None
    then show ?thesis by simp
  next
    case (Some v0)
    then have "(cat, v0) \<in> set (categories e)" by (rule map_of_SomeD)
    with v have "0 < v0" by auto
    with Some show ?thesis by simp
  qed
  with s have "0 < double (orZero (map_of (categories e) cat) + s)" by (intro double_pos) simp
  then have pos: "\<forall>(c, v) \<in> set (setKey (categories e) cat
                     (double (orZero (map_of (categories e) cat) + s))). 0 < v"
    using v by (auto dest!: setKey_entries)
  have dist: "distinct (map fst (setKey (categories e) cat
                (double (orZero (map_of (categories e) cat) + s))))"
    using d by (auto simp: setKey_keys)
  from t s have "0 < double (total e + s)" by (intro double_pos) simp
  with pos dist show ?thesis
    by (simp add: entryOk_def setKey_nonempty)
qed

lemma addScore_mapOk:
  assumes ok: "mapOk cs" and s: "0 < s"
  shows "mapOk (addScore c s cat cs)"
proof (cases "c = []")
  case True
  with ok show ?thesis by (simp add: addScore_def)
next
  case False
  define n where "n = toLowerCase c"
  define new where "new = (n, \<lparr>total = 0, categories = [], vibrancy = getColorVibrancy n\<rparr>)"
  define cs' where "cs' = (if \<not> hasKey cs n then cs @ [new] else cs)"
  define upd where "upd = (\<lambda>(k, entry :: scoreEntry).
                  if k = n
                  then (k, entry\<lparr>total := double (total entry + s),
                                 categories := setKey (categories entry) cat
                                                 (double (orZero (map_of (categories entry) cat) + s))\<rparr>)
                  else (k, entry))"
  have a: "addScore c s cat cs = map upd cs'"
    using False by (simp add: addScore_def Let_def n_def cs'_def upd_def new_def)
  have pre: "0 \<le> total e \<and> (\<forall>(c, v) \<in> set (categories e). 0 < v) \<and> distinct (map fst (categories e))"
    if "(k, e) \<in> set cs'" for k e
  proof (cases "(k, e) \<in> set cs")
    case True
    with ok have "entryOk e" by (auto simp: mapOk_def)
    then show ?thesis by (simp add: entryOk_def)
  next
    case False
    with that have "(k, e) = new" by (auto simp: cs'_def split: if_splits)
    then show ?thesis by (simp add: new_def)
  qed
  have "entryOk e'" if "(k', e') \<in> set (map upd cs')" for k' e'
  proof -
    from that obtain k e where ke: "(k, e) \<in> set cs'" and u: "(k', e') = upd (k, e)" by auto
    show ?thesis
    proof (cases "k = n")
      case True
      with u have "e' = e\<lparr>total := double (total e + s),
                    categories := setKey (categories e) cat
                                    (double (orZero (map_of (categories e) cat) + s))\<rparr>"
        by (simp add: upd_def)
      with pre [OF ke] s show ?thesis by (simp add: updated_entryOk)
    next
      case False
      with u have e: "e' = e" by (simp add: upd_def)
      from False ke have "(k, e) \<in> set cs" by (auto simp: cs'_def new_def split: if_splits)
      with ok e show ?thesis by (auto simp: mapOk_def)
    qed
  qed
  then have "\<forall>(k, e) \<in> set (map upd cs'). entryOk e" by blast
  then show ?thesis by (simp only: a mapOk_def)
qed

lemma foldl_mapOk:
  assumes "mapOk cs" and "\<And>x cs. x \<in> set xs \<Longrightarrow> mapOk cs \<Longrightarrow> mapOk (f cs x)"
  shows "mapOk (foldl f cs xs)"
  using assms by (induction xs arbitrary: cs) simp_all

lemma rounded_sum_ge:
  assumes "double k = k" "k \<le> a" "0 \<le> b"
  shows "k \<le> double (a + b)"
proof -
  from assms(2,3) have "k \<le> a + b" by simp
  then have "double k \<le> double (a + b)" by (rule double_mono)
  with assms(1) show ?thesis by simp
qed

lemma buttonScore_ge:
  assumes "hexColor (colorArea.color b)" "0 \<le> area b"
  shows "50 \<le> buttonScore b"
proof -
  define vb where "vb = double (getColorVibrancy (colorArea.color b) * 100)"
  define ab where "ab = min (double (area b / 1000)) 50"
  define base :: rat where "base = (if isVisible b then 100 else 50)"
  from getColorVibrancy_bounds [OF assms(1)] have "0 \<le> getColorVibrancy (colorArea.color b) * 100" by simp
  then have v: "0 \<le> vb" unfolding vb_def by (rule double_nonneg)
  from assms(2) have "0 \<le> double (area b / 1000)" by (intro double_nonneg) simp
  then have a: "0 \<le> ab" by (simp add: ab_def)
  have b: "50 \<le> base" by (simp add: base_def)
  have i: "50 \<le> double (base + ab)"
    using rounded_sum_ge [of 50 base ab] a b by (simp add: double_numerals)
  have "50 \<le> double (double (base + ab) + vb)"
    using rounded_sum_ge [of 50 "double (base + ab)" vb] i v by (simp add: double_numerals)
  then show ?thesis by (simp add: buttonScore_def Let_def vb_def ab_def base_def)
qed

lemma counted_ge:
  assumes "1 \<le> n" "double k = k" "0 \<le> k"
  shows "k \<le> double (of_nat n * k)"
proof -
  from assms(1) have "(1::rat) \<le> of_nat n" by simp
  with assms(3) have "1 * k \<le> of_nat n * k" by (intro mult_right_mono) simp_all
  then have "k \<le> of_nat n * k" by simp
  then have "double k \<le> double (of_nat n * k)" by (rule double_mono)
  with assms(2) show ?thesis by simp
qed

lemma linkScore_ge:
  assumes "hexColor c" "1 \<le> n"
  shows "10 \<le> linkScore c n"
proof -
  from getColorVibrancy_bounds [OF assms(1)] have "0 \<le> getColorVibrancy c * 30" by simp
  then have v: "0 \<le> double (getColorVibrancy c * 30)" by (rule double_nonneg)
  from assms(2) have "10 \<le> double (of_nat n * 10)" by (intro counted_ge) (simp_all add: double_numerals)
  with v show ?thesis unfolding linkScore_def
    by (intro rounded_sum_ge) (simp_all add: double_numerals)
qed

lemma backgroundScore_ge: "15 \<le> backgroundScore b"
  by (simp add: backgroundScore_def)

lemma borderScore_gt:
  assumes "double (3 / 10) < getColorVibrancy c" "1 \<le> n"
  shows "15 < borderScore c n"
proof -
  from assms(1) have "3 / 10 < getColorVibrancy c" by (simp add: border_test)
  then have "10 \<le> getColorVibrancy c * 40" by simp
  then have "double 10 \<le> double (getColorVibrancy c * 40)" by (rule double_mono)
  then have v: "10 \<le> double (getColorVibrancy c * 40)" by (simp add: double_numerals)
  from assms(2) have "15 \<le> double (of_nat n * 15)" by (intro counted_ge) (simp_all add: double_numerals)
  with v have "25 \<le> double (of_nat n * 15) + double (getColorVibrancy c * 40)" by simp
  then have "double 25 \<le> double (double (of_nat n * 15) + double (getColorVibrancy c * 40))"
    by (rule double_mono)
  then show ?thesis by (simp add: borderScore_def double_numerals)
qed

lemma svgScore_ge:
  assumes "hexColor (colorArea.color s)"
  shows "50 \<le> svgScore s"
proof -
  from getColorVibrancy_bounds [OF assms] have "0 \<le> getColorVibrancy (colorArea.color s) * 80" by simp
  then have v: "0 \<le> double (getColorVibrancy (colorArea.color s) * 80)" by (rule double_nonneg)
  have "(50::rat) \<le> (if svgColor.inHeader s then 150 else 50)" by simp
  with v show ?thesis unfolding svgScore_def Let_def
    by (intro rounded_sum_ge) (simp_all add: double_numerals)
qed

lemma accentScore_ge:
  assumes "hexColor (colorArea.color a)"
  shows "60 \<le> accentScore a"
proof -
  from getColorVibrancy_bounds [OF assms] have "0 \<le> getColorVibrancy (colorArea.color a) * 60" by simp
  then have v: "0 \<le> double (getColorVibrancy (colorArea.color a) * 60)" by (rule double_nonneg)
  then show ?thesis unfolding accentScore_def
    by (intro rounded_sum_ge) (simp_all add: double_numerals)
qed

lemma scoreBorders_filter:
  "scoreBorders bs cs0 =
     foldl (\<lambda>cs (c, n). addScore c (borderScore c n) Border cs) cs0
       (filter (\<lambda>(c, n). double (3 / 10) < getColorVibrancy c) (countOccurrences bs))"
proof -
  have "foldl (\<lambda>cs (c, n). if getColorVibrancy c > double (3 / 10) then addScore c (borderScore c n) Border cs else cs) cs0 xs
      = foldl (\<lambda>cs (c, n). addScore c (borderScore c n) Border cs) cs0
          (filter (\<lambda>(c, n). double (3 / 10) < getColorVibrancy c) xs)" for xs
    by (induction xs arbitrary: cs0) (auto simp: case_prod_unfold)
  then show ?thesis by (simp add: scoreBorders_def)
qed

lemma colorScores_mapOk:
  assumes r: "rendererColors cd"
  shows "mapOk (colorScores cd)"
proof -
  have 0: "mapOk []" by (simp add: mapOk_def)
  have 1: "mapOk (scoreButtons (buttons cd) [])"
    unfolding scoreButtons_def
  proof (rule foldl_mapOk [OF 0])
    fix b cs assume "b \<in> set (buttons cd)" "mapOk cs"
    with r have "50 \<le> buttonScore b" by (auto simp: rendererColors_def intro: buttonScore_ge)
    then have "0 < buttonScore b" by linarith
    with \<open>mapOk cs\<close> show "mapOk (addScore (colorArea.color b) (buttonScore b) Button cs)"
      by (rule addScore_mapOk)
  qed
  have 2: "mapOk (scoreLinks (links cd) (scoreButtons (buttons cd) []))"
    unfolding scoreLinks_def
  proof (rule foldl_mapOk [OF 1])
    fix x cs assume x: "x \<in> set (countOccurrences (links cd))" and cs: "mapOk cs"
    obtain c n where xc: "x = (c, n)" by (cases x)
    with x have "c \<in> set (links cd)" "1 \<le> n" by (auto dest: countOccurrences_entries)
    with r have "10 \<le> linkScore c n" by (auto simp: rendererColors_def intro: linkScore_ge)
    then have "0 < linkScore c n" by linarith
    with cs have "mapOk (addScore c (linkScore c n) Link cs)" by (rule addScore_mapOk)
    with xc show "mapOk (case x of (c, count) \<Rightarrow> addScore c (linkScore c count) Link cs)" by simp
  qed
  have 3: "mapOk (scoreBackgrounds (colorData.backgrounds cd) (scoreLinks (links cd) (scoreButtons (buttons cd) [])))"
    unfolding scoreBackgrounds_def
  proof (rule foldl_mapOk [OF 2])
    fix b :: bg and cs assume "mapOk cs"
    moreover have "0 < backgroundScore b" using backgroundScore_ge [of b] by linarith
    ultimately show "mapOk (addScore (colorArea.color b) (backgroundScore b) Background cs)"
      by (rule addScore_mapOk)
  qed
  have 4: "mapOk (scoreBorders (borders cd) (scoreBackgrounds (colorData.backgrounds cd)
             (scoreLinks (links cd) (scoreButtons (buttons cd) []))))"
    unfolding scoreBorders_def
  proof (rule foldl_mapOk [OF 3])
    fix x cs assume x: "x \<in> set (countOccurrences (borders cd))" and cs: "mapOk cs"
    obtain c n where xc: "x = (c, n)" by (cases x)
    with x have n: "1 \<le> n" by (auto dest: countOccurrences_entries)
    show "mapOk (case x of (c, count) \<Rightarrow>
            if getColorVibrancy c > double (3 / 10) then addScore c (borderScore c count) Border cs else cs)"
    proof (cases "double (3 / 10) < getColorVibrancy c")
      case True
      from True n have "15 < borderScore c n" by (rule borderScore_gt)
      then have "0 < borderScore c n" by linarith
      with cs have "mapOk (addScore c (borderScore c n) Border cs)" by (rule addScore_mapOk)
      with True xc show ?thesis by simp
    next
      case False
      with cs xc show ?thesis by simp
    qed
  qed
  have 5: "mapOk (scoreSvgColors (svgColors cd) (scoreBorders (borders cd)
             (scoreBackgrounds (colorData.backgrounds cd) (scoreLinks (links cd) (scoreButtons (buttons cd) [])))))"
  proof (cases "svgColors cd")
    case None
    with 4 show ?thesis by (simp add: scoreSvgColors_def)
  next
    case (Some ss)
    have "mapOk (foldl (\<lambda>cs svg. addScore (colorArea.color svg) (svgScore svg) Svg cs)
            (scoreBorders (borders cd) (scoreBackgrounds (colorData.backgrounds cd)
               (scoreLinks (links cd) (scoreButtons (buttons cd) [])))) ss)"
    proof (rule foldl_mapOk [OF 4])
      fix s cs assume "s \<in> set ss" "mapOk cs"
      with r Some have "50 \<le> svgScore s" by (auto simp: rendererColors_def intro: svgScore_ge)
      then have "0 < svgScore s" by linarith
      with \<open>mapOk cs\<close> show "mapOk (addScore (colorArea.color s) (svgScore s) Svg cs)"
        by (rule addScore_mapOk)
    qed
    with Some show ?thesis by (simp add: scoreSvgColors_def)
  qed
  show ?thesis
  proof (cases "accentElements cd")
    case None
    with 5 show ?thesis by (simp add: colorScores_def scoreAccentElements_def)
  next
    case (Some as)
    have "mapOk (foldl (\<lambda>cs accent. addScore (colorArea.color accent) (accentScore accent) Accent cs)
            (scoreSvgColors (svgColors cd) (scoreBorders (borders cd)
               (scoreBackgrounds (colorData.backgrounds cd) (scoreLinks (links cd) (scoreButtons (buttons cd) []))))) as)"
    proof (rule foldl_mapOk [OF 5])
      fix a cs assume "a \<in> set as" "mapOk cs"
      with r Some have "60 \<le> accentScore a" by (auto simp: rendererColors_def intro: accentScore_ge)
      then have "0 < accentScore a" by linarith
      with \<open>mapOk cs\<close> show "mapOk (addScore (colorArea.color a) (accentScore a) Accent cs)"
        by (rule addScore_mapOk)
    qed
    with Some show ?thesis by (simp add: colorScores_def scoreAccentElements_def)
  qed
qed

lemma entryOk_usage:
  assumes "entryOk e"
  shows "set (map fst (categories e)) = {cat. categorySubtotal e cat \<noteq> 0}"
proof (intro set_eqI iffI)
  fix cat assume "cat \<in> set (map fst (categories e))"
  then obtain v where "map_of (categories e) cat = Some v"
    by (metis domD dom_map_of_conv_image_fst set_map)
  moreover from this have "(cat, v) \<in> set (categories e)" by (rule map_of_SomeD)
  with assms have "0 < v" by (auto simp: entryOk_def)
  ultimately show "cat \<in> {cat. categorySubtotal e cat \<noteq> 0}" by (simp add: categorySubtotal_def)
next
  fix cat assume "cat \<in> {cat. categorySubtotal e cat \<noteq> 0}"
  then have "map_of (categories e) cat \<noteq> None" by (auto simp: categorySubtotal_def split: option.splits)
  then show "cat \<in> set (map fst (categories e))" by (simp add: map_of_eq_None_iff)
qed

lemma palette_entries:
  assumes "p \<in> set (palette (classifyColors cd))"
  shows "\<exists>e. (paletteEntry.color p, e) \<in> set (colorScores cd) \<and> score p = total e \<and>
             usage p = map fst (categories e)"
proof -
  from assms obtain c e where ce: "(c, e) \<in> set (take 8 (sortedColors (colorScores cd)))"
    and p: "p = \<lparr>color = c, score = total e, usage = map fst (categories e)\<rparr>"
    by (auto simp: classifyColors_def classifyRoles_def Let_def)
  from ce have "(c, e) \<in> set (sortedColors (colorScores cd))" by (rule in_set_takeD)
  then have "(c, e) \<in> set (colorScores cd)" by (simp add: sortedColors_def)
  with p show ?thesis by auto
qed

text \<open>
  Claim C10. On candidate lists as the renderer produces them (hex colours, button areas
  not negative) every contribution is strictly positive: a button contributes at least
  \<open>50\<close>, a link colour at least \<open>10\<close>, a background at least \<open>15\<close>, a border colour
  contributes only when its vibrancy exceeds \<open>0.3\<close> (the test against the double
  nearest to \<open>0.3\<close> is the same as the test against \<open>0.3\<close>) and then more than \<open>15\<close>,
  an SVG colour at least \<open>50\<close>, an accent element at least \<open>60\<close>. Hence every entry
  of the score map has a strictly positive total and strictly positive subtotals, and
  the usage list of every palette entry is non-empty, free of repetitions and names
  exactly the categories whose subtotal for that colour is not zero. All contributions,
  totals and subtotals are the doubles that the engine computes.
\<close>

theorem contributions_positive:
  assumes "rendererColors cd"
  shows "(\<forall>b \<in> set (buttons cd). 50 \<le> buttonScore b) \<and>
         (\<forall>(c, n) \<in> set (countOccurrences (links cd)). 10 \<le> linkScore c n) \<and>
         (\<forall>b \<in> set (colorData.backgrounds cd). 15 \<le> backgroundScore b) \<and>
         scoreBorders (borders cd) cs0 =
           foldl (\<lambda>cs (c, n). addScore c (borderScore c n) Border cs) cs0
             (filter (\<lambda>(c, n). double (3 / 10) < getColorVibrancy c) (countOccurrences (borders cd))) \<and>
         (\<forall>(c, n) \<in> set (countOccurrences (borders cd)). double (3 / 10) < getColorVibrancy c \<longrightarrow> 15 < borderScore c n) \<and>
         (\<forall>c. double (3 / 10) < getColorVibrancy c \<longleftrightarrow> 3 / 10 < getColorVibrancy c) \<and>
         (case svgColors cd of None \<Rightarrow> True | Some ss \<Rightarrow> \<forall>s \<in> set ss. 50 \<le> svgScore s) \<and>
         (case accentElements cd of None \<Rightarrow> True | Some as \<Rightarrow> \<forall>a \<in> set as. 60 \<le> accentScore a) \<and>
         (\<forall>(c, e) \<in> set (colorScores cd). 0 < total e \<and> (\<forall>(cat, v) \<in> set (categories e). 0 < v)) \<and>
         (\<forall>p \<in> set (palette (classifyColors cd)).
             usage p \<noteq> [] \<and> distinct (usage p) \<and>
             (\<exists>e. (paletteEntry.color p, e) \<in> set (colorScores cd) \<and> score p = total e \<and>
                  set (usage p) = {cat. categorySubtotal e cat \<noteq> 0}))"
proof -
  note r = assms
  have b: "\<forall>b \<in> set (buttons cd). 50 \<le> buttonScore b"
    using r by (auto simp: rendererColors_def intro: buttonScore_ge)
  have l: "\<forall>(c, n) \<in> set (countOccurrences (links cd)). 10 \<le> linkScore c n"
    using r by (auto simp: rendererColors_def dest!: countOccurrences_entries intro: linkScore_ge)
  have g: "\<forall>b \<in> set (colorData.backgrounds cd). 15 \<le> backgroundScore b"
    by (simp add: backgroundScore_ge)
  have o: "\<forall>(c, n) \<in> set (countOccurrences (borders cd)). double (3 / 10) < getColorVibrancy c \<longrightarrow> 15 < borderScore c n"
    by (auto dest!: countOccurrences_entries intro: borderScore_gt)
  have s: "case svgColors cd of None \<Rightarrow> True | Some ss \<Rightarrow> \<forall>s \<in> set ss. 50 \<le> svgScore s"
    using r by (auto simp: rendererColors_def split: option.splits intro: svgScore_ge)
  have a: "case accentElements cd of None \<Rightarrow> True | Some as \<Rightarrow> \<forall>a \<in> set as. 60 \<le> accentScore a"
    using r by (auto simp: rendererColors_def split: option.splits intro: accentScore_ge)
  have ok: "mapOk (colorScores cd)" using r by (rule colorScores_mapOk)
  then have m: "\<forall>(c, e) \<in> set (colorScores cd). 0 < total e \<and> (\<forall>(cat, v) \<in> set (categories e). 0 < v)"
    by (auto simp: mapOk_def entryOk_def)
  have p: "\<forall>p \<in> set (palette (classifyColors cd)).
             usage p \<noteq> [] \<and> distinct (usage p) \<and>
             (\<exists>e. (paletteEntry.color p, e) \<in> set (colorScores cd) \<and> score p = total e \<and>
                  set (usage p) = {cat. categorySubtotal e cat \<noteq> 0})"
  proof
    fix p assume "p \<in> set (palette (classifyColors cd))"
    then obtain e where e: "(paletteEntry.color p, e) \<in> set (colorScores cd)" "score p = total e"
      "usage p = map fst (categories e)"
      using palette_entries by blast
    with ok have eo: "entryOk e" by (auto simp: mapOk_def)
    then have "usage p \<noteq> []" "distinct (usage p)" by (simp_all add: e entryOk_def)
    moreover have "set (usage p) = {cat. categorySubtotal e cat \<noteq> 0}"
      using entryOk_usage [OF eo] by (simp add: e)
    ultimately show "usage p \<noteq> [] \<and> distinct (usage p) \<and>
             (\<exists>e. (paletteEntry.color p, e) \<in> set (colorScores cd) \<and> score p = total e \<and>
                  set (usage p) = {cat. categorySubtotal e cat \<noteq> 0})"
      using e by blast
  qed
  have t: "\<forall>c. double (3 / 10) < getColorVibrancy c \<longleftrightarrow> 3 / 10 < getColorVibrancy c"
    by (simp add: border_test)
  from b l g scoreBorders_filter [of "borders cd" cs0] o t s a m p show ?thesis by blast
qed

subsection \<open>Additivity up to rounding\<close>

text \<open>
  \<open>addScore\<close> adds a score to the total and to one subtotal, and rounds each of the
  two sums. The total and the sum of the subtotals therefore drift apart, by at most one
  unit in the last place of the new total at every addition. They are equal as long as
  the colour has contributions in one category only, since total and subtotal are then
  produced by the same operations.
\<close>

lemma replace_sum:
  assumes "distinct (map fst m)" "map_of m k = Some v0"
  shows "sum_list (map snd (map (\<lambda>(k', v'). if k' = k then (k', w) else (k', v')) m))
           = sum_list (map snd m) - v0 + (w :: rat)"
  using assms
proof (induction m)
  case Nil
  then show ?case by simp
next
  case (Cons x xs)
  obtain k1 v1 where x: "x = (k1, v1)" by (cases x)
  show ?case
  proof (cases "k1 = k")
    case True
    with Cons.prems x have "k \<notin> fst ` set xs" and v: "v1 = v0" by auto
    then have "map (\<lambda>(k', v'). if k' = k then (k', w) else (k', v')) xs = xs"
      by (intro map_idI) (auto simp: case_prod_unfold image_iff)
    with True x v show ?thesis by simp
  next
    case False
    with Cons.prems x have "distinct (map fst xs)" "map_of xs k = Some v0" by auto
    from Cons.IH [OF this] False x show ?thesis by simp
  qed
qed

lemma setKey_sum:
  assumes d: "distinct (map fst m)"
  shows "sum_list (map snd (setKey m k w)) = sum_list (map snd m) - orZero (map_of m k) + (w :: rat)"
proof (cases "map_of m k")
  case None
  then have "\<not> hasKey m k" by (simp add: hasKey_def)
  with None show ?thesis by (simp add: setKey_def)
next
  case (Some v0)
  then have h: "hasKey m k" by (simp add: hasKey_def)
  with replace_sum [OF d Some, of w] Some show ?thesis
    by (simp add: setKey_def)
qed

lemma orZero_bounds:
  assumes "\<forall>(c, v) \<in> set m. 0 \<le> v \<and> v \<le> t" "0 \<le> t"
  shows "0 \<le> orZero (map_of m k) \<and> orZero (map_of m k) \<le> t"
proof (cases "map_of m k")
  case None
  with assms(2) show ?thesis by simp
next
  case (Some v0)
  then have "(k, v0) \<in> set m" by (rule map_of_SomeD)
  with assms(1) Some show ?thesis by auto
qed

lemma nearlyAdditive_mono:
  assumes "nearlyAdditive n e" "n \<le> m"
  shows "nearlyAdditive m e"
proof -
  from assms(1) have t: "0 \<le> total e"
    and b: "\<bar>total e - sum_list (map snd (categories e))\<bar> \<le> of_nat n * 2 powi (- 52) * total e"
    by (simp_all add: nearlyAdditive_def)
  from assms(2) have "(of_nat n :: rat) \<le> of_nat m" by simp
  moreover have "(0::rat) \<le> 2 powi (- 52)" by simp
  ultimately have nm: "of_nat n * 2 powi (- 52) \<le> (of_nat m :: rat) * 2 powi (- 52)"
    by (rule mult_right_mono)
  have "of_nat n * 2 powi (- 52) * total e \<le> of_nat m * 2 powi (- 52) * total e"
    by (rule mult_right_mono [OF nm t])
  with b have "\<bar>total e - sum_list (map snd (categories e))\<bar> \<le> of_nat m * 2 powi (- 52) * total e"
    by linarith
  with assms(1) show ?thesis by (simp add: nearlyAdditive_def)
qed

lemma updated_nearlyAdditive:
  assumes na: "nearlyAdditive n e" and s: "0 \<le> s"
  shows "nearlyAdditive (Suc n)
           (e\<lparr>total := double (total e + s),
              categories := setKey (categories e) cat
                              (double (orZero (map_of (categories e) cat) + s))\<rparr>)"
proof -
  define T where "T = total e"
  define m where "m = categories e"
  define v0 where "v0 = orZero (map_of m cat)"
  define T' where "T' = double (T + s)"
  define v' where "v' = double (v0 + s)"
  define C where "C = sum_list (map snd m)"
  define C' where "C' = sum_list (map snd (setKey m cat v'))"
  define u :: rat where "u = 2 powi (- 53)"
  define w :: rat where "w = 2 powi (- 52)"
  have "(2::rat) powi (1 + - 53) = 2 powi 1 * 2 powi (- 53)" by (rule power_int_add) simp
  then have uw: "w = 2 * u" "0 \<le> u" "0 \<le> w" by (simp_all add: u_def w_def)
  from na have t: "0 \<le> T" and rep: "double T = T"
    and sub: "\<forall>(c, v) \<in> set m. 0 \<le> v \<and> v \<le> T"
    and d: "distinct (map fst m)"
    and err: "\<bar>T - C\<bar> \<le> of_nat n * w * T"
    by (simp_all add: nearlyAdditive_def T_def m_def C_def w_def)
  from orZero_bounds [OF sub t] have v0: "0 \<le> v0" "v0 \<le> T" by (simp_all add: v0_def)
  have "double T \<le> double (T + s)" using s by (intro double_mono) simp
  then have TT: "T \<le> T'" by (simp add: rep T'_def)
  with t have t': "0 \<le> T'" by simp
  have "double (v0 + s) \<le> double (T + s)" using v0(2) by (intro double_mono) simp
  then have vT: "v' \<le> T'" by (simp add: v'_def T'_def)
  have vp: "0 \<le> v'" unfolding v'_def using v0(1) s by (intro double_nonneg) simp
  have sub': "\<forall>(c, v) \<in> set (setKey m cat v'). 0 \<le> v \<and> v \<le> T'"
    using sub TT vT vp by (fastforce dest!: setKey_entries)
  have d': "distinct (map fst (setKey m cat v'))" using d by (auto simp: setKey_keys)
  have c': "C' = C - v0 + v'" unfolding C'_def C_def v0_def by (rule setKey_sum [OF d])
  have "\<bar>double (T + s) - (T + s)\<bar> \<le> 2 powi (- 53) * \<bar>double (T + s)\<bar>" by (rule double_rel_error)
  with t' have e1: "\<bar>T' - (T + s)\<bar> \<le> u * T'" by (simp add: T'_def u_def)
  have "\<bar>double (v0 + s) - (v0 + s)\<bar> \<le> 2 powi (- 53) * \<bar>double (v0 + s)\<bar>" by (rule double_rel_error)
  with vp have e2: "\<bar>v' - (v0 + s)\<bar> \<le> u * v'" by (simp add: v'_def u_def)
  from vT uw(2) have e2': "u * v' \<le> u * T'" by (rule mult_left_mono)
  have "of_nat n * w * T \<le> of_nat n * w * T'"
    using TT uw(3) by (intro mult_left_mono) simp_all
  with err have e3: "\<bar>T - C\<bar> \<le> of_nat n * w * T'" by linarith
  have "\<bar>T' - C'\<bar> \<le> \<bar>T' - (T + s)\<bar> + \<bar>T - C\<bar> + \<bar>v' - (v0 + s)\<bar>"
    unfolding c' by linarith
  with e1 e2 e2' e3 have "\<bar>T' - C'\<bar> \<le> u * T' + of_nat n * w * T' + u * T'" by linarith
  also have "\<dots> = of_nat (Suc n) * w * T'" by (simp add: uw(1) algebra_simps)
  finally have err': "\<bar>T' - C'\<bar> \<le> of_nat (Suc n) * w * T'" .
  have "double T' = T'" by (simp add: T'_def)
  with t' sub' d' err' show ?thesis
    by (simp add: nearlyAdditive_def T'_def T_def v'_def v0_def m_def C'_def w_def)
qed

lemma addScore_nearlyAdditive:
  assumes ok: "\<forall>(k, e) \<in> set cs. nearlyAdditive n e" and s: "0 \<le> s"
  shows "\<forall>(k, e) \<in> set (addScore c s cat cs). nearlyAdditive (Suc n) e"
proof (cases "c = []")
  case True
  with ok show ?thesis by (auto simp: addScore_def intro: nearlyAdditive_mono)
next
  case False
  define k0 where "k0 = toLowerCase c"
  define new where "new = (k0, \<lparr>total = 0, categories = [], vibrancy = getColorVibrancy k0\<rparr>)"
  define cs' where "cs' = (if \<not> hasKey cs k0 then cs @ [new] else cs)"
  define upd where "upd = (\<lambda>(k, entry :: scoreEntry).
                  if k = k0
                  then (k, entry\<lparr>total := double (total entry + s),
                                 categories := setKey (categories entry) cat
                                                 (double (orZero (map_of (categories entry) cat) + s))\<rparr>)
                  else (k, entry))"
  have a: "addScore c s cat cs = map upd cs'"
    using False by (simp add: addScore_def Let_def k0_def cs'_def upd_def new_def)
  have pre: "nearlyAdditive n e" if "(k, e) \<in> set cs'" for k e
  proof (cases "(k, e) \<in> set cs")
    case True
    with ok show ?thesis by auto
  next
    case False
    with that have "(k, e) = new" by (auto simp: cs'_def split: if_splits)
    then show ?thesis by (simp add: new_def nearlyAdditive_def)
  qed
  have "nearlyAdditive (Suc n) e'" if "(k', e') \<in> set (map upd cs')" for k' e'
  proof -
    from that obtain k e where ke: "(k, e) \<in> set cs'" and u: "(k', e') = upd (k, e)" by auto
    show ?thesis
    proof (cases "k = k0")
      case True
      with u have "e' = e\<lparr>total := double (total e + s),
                    categories := setKey (categories e) cat
                                    (double (orZero (map_of (categories e) cat) + s))\<rparr>"
        by (simp add: upd_def)
      with pre [OF ke] s show ?thesis by (simp add: updated_nearlyAdditive)
    next
      case False
      with u have "e' = e" by (simp add: upd_def)
      with pre [OF ke] show ?thesis by (auto intro: nearlyAdditive_mono)
    qed
  qed
  then have "\<forall>(k, e) \<in> set (map upd cs'). nearlyAdditive (Suc n) e" by blast
  then show ?thesis by (simp only: a)
qed

lemma foldl_counted:
  assumes "P n s" and "\<And>x n s. x \<in> set xs \<Longrightarrow> P n s \<Longrightarrow> P (Suc n) (f s x)"
  shows "P (n + length xs) (foldl f s xs)"
  using assms
proof (induction xs arbitrary: n s)
  case Nil
  then show ?case by simp
next
  case (Cons x xs)
  have "P (Suc n) (f s x)" using Cons.prems by simp
  from Cons.IH [OF this] Cons.prems(2) show ?case by simp
qed

lemma colorScores_nearlyAdditive:
  assumes r: "rendererColors cd"
  shows "\<forall>(k, e) \<in> set (colorScores cd). nearlyAdditive (candidateCount cd) e"
proof -
  define P where "P = (\<lambda>n (cs :: scoreMap). \<forall>(k, e) \<in> set cs. nearlyAdditive n e)"
  have step: "P (Suc n) (addScore c s cat cs)" if "P n cs" "0 \<le> s" for n cs c s cat
    using that addScore_nearlyAdditive [of cs n s c cat] by (simp add: P_def)
  have skip: "P (Suc n) cs" if "P n cs" for n cs
    using that by (auto simp: P_def intro: nearlyAdditive_mono)
  have mono: "P m cs" if "P n cs" "n \<le> m" for n m cs
    using that by (auto simp: P_def intro: nearlyAdditive_mono)
  define n1 where "n1 = length (buttons cd)"
  define n2 where "n2 = n1 + length (countOccurrences (links cd))"
  define n3 where "n3 = n2 + length (colorData.backgrounds cd)"
  define n4 where "n4 = n3 + length (countOccurrences (borders cd))"
  define n5 where "n5 = n4 + (case svgColors cd of None \<Rightarrow> 0 | Some ss \<Rightarrow> length ss)"
  define n6 where "n6 = n5 + (case accentElements cd of None \<Rightarrow> 0 | Some as \<Rightarrow> length as)"
  define cs1 where "cs1 = scoreButtons (buttons cd) []"
  define cs2 where "cs2 = scoreLinks (links cd) cs1"
  define cs3 where "cs3 = scoreBackgrounds (colorData.backgrounds cd) cs2"
  define cs4 where "cs4 = scoreBorders (borders cd) cs3"
  define cs5 where "cs5 = scoreSvgColors (svgColors cd) cs4"
  have 0: "P 0 []" by (simp add: P_def)
  have "P (0 + length (buttons cd)) (scoreButtons (buttons cd) [])"
    unfolding scoreButtons_def
  proof (rule foldl_counted [of P, OF 0])
    fix b n cs assume "b \<in> set (buttons cd)" "P n cs"
    with r have "50 \<le> buttonScore b" by (auto simp: rendererColors_def intro: buttonScore_ge)
    then have "0 \<le> buttonScore b" by linarith
    with \<open>P n cs\<close> show "P (Suc n) (addScore (colorArea.color b) (buttonScore b) Button cs)"
      by (rule step)
  qed
  then have 1: "P n1 cs1" by (simp add: n1_def cs1_def)
  have "P (n1 + length (countOccurrences (links cd))) (scoreLinks (links cd) cs1)"
    unfolding scoreLinks_def
  proof (rule foldl_counted [of P, OF 1])
    fix x n cs assume x: "x \<in> set (countOccurrences (links cd))" and cs: "P n cs"
    obtain c k where xc: "x = (c, k)" by (cases x)
    with x have "c \<in> set (links cd)" "1 \<le> k" by (auto dest: countOccurrences_entries)
    with r have "10 \<le> linkScore c k" by (auto simp: rendererColors_def intro: linkScore_ge)
    then have "0 \<le> linkScore c k" by linarith
    with cs have "P (Suc n) (addScore c (linkScore c k) Link cs)" by (rule step)
    with xc show "P (Suc n) (case x of (c, count) \<Rightarrow> addScore c (linkScore c count) Link cs)" by simp
  qed
  then have 2: "P n2 cs2" by (simp add: n2_def cs2_def)
  have "P (n2 + length (colorData.backgrounds cd)) (scoreBackgrounds (colorData.backgrounds cd) cs2)"
    unfolding scoreBackgrounds_def
  proof (rule foldl_counted [of P, OF 2])
    fix b :: bg and n cs assume "P n cs"
    moreover have "0 \<le> backgroundScore b" using backgroundScore_ge [of b] by linarith
    ultimately show "P (Suc n) (addScore (colorArea.color b) (backgroundScore b) Background cs)"
      by (rule step)
  qed
  then have 3: "P n3 cs3" by (simp add: n3_def cs3_def)
  have "P (n3 + length (countOccurrences (borders cd))) (scoreBorders (borders cd) cs3)"
    unfolding scoreBorders_def
  proof (rule foldl_counted [of P, OF 3])
    fix x n cs assume x: "x \<in> set (countOccurrences (borders cd))" and cs: "P n cs"
    obtain c k where xc: "x = (c, k)" by (cases x)
    with x have k: "1 \<le> k" by (auto dest: countOccurrences_entries)
    show "P (Suc n) (case x of (c, count) \<Rightarrow>
            if getColorVibrancy c > double (3 / 10) then addScore c (borderScore c count) Border cs
            else cs)"
    proof (cases "double (3 / 10) < getColorVibrancy c")
      case True
      from True k have "15 < borderScore c k" by (rule borderScore_gt)
      then have "0 \<le> borderScore c k" by linarith
      with cs have "P (Suc n) (addScore c (borderScore c k) Border cs)" by (rule step)
      with True xc show ?thesis by simp
    next
      case False
      with skip [OF cs] xc show ?thesis by simp
    qed
  qed
  then have 4: "P n4 cs4" by (simp add: n4_def cs4_def)
  have 5: "P n5 cs5"
  proof (cases "svgColors cd")
    case None
    with 4 show ?thesis by (simp add: n5_def cs5_def scoreSvgColors_def)
  next
    case (Some ss)
    have "P (n4 + length ss) (foldl (\<lambda>cs svg. addScore (colorArea.color svg) (svgScore svg) Svg cs) cs4 ss)"
    proof (rule foldl_counted [of P, OF 4])
      fix s n cs assume "s \<in> set ss" "P n cs"
      with r Some have "50 \<le> svgScore s" by (auto simp: rendererColors_def intro: svgScore_ge)
      then have "0 \<le> svgScore s" by linarith
      with \<open>P n cs\<close> show "P (Suc n) (addScore (colorArea.color s) (svgScore s) Svg cs)"
        by (rule step)
    qed
    with Some show ?thesis by (simp add: n5_def cs5_def scoreSvgColors_def)
  qed
  have 6: "P n6 (colorScores cd)"
  proof (cases "accentElements cd")
    case None
    with 5 show ?thesis
      by (simp add: n6_def cs5_def cs4_def cs3_def cs2_def cs1_def colorScores_def scoreAccentElements_def)
  next
    case (Some as)
    have "P (n5 + length as)
            (foldl (\<lambda>cs accent. addScore (colorArea.color accent) (accentScore accent) Accent cs) cs5 as)"
    proof (rule foldl_counted [of P, OF 5])
      fix a n cs assume "a \<in> set as" "P n cs"
      with r Some have "60 \<le> accentScore a" by (auto simp: rendererColors_def intro: accentScore_ge)
      then have "0 \<le> accentScore a" by linarith
      with \<open>P n cs\<close> show "P (Suc n) (addScore (colorArea.color a) (accentScore a) Accent cs)"
        by (rule step)
    qed
    with Some show ?thesis
      by (simp add: n6_def cs5_def cs4_def cs3_def cs2_def cs1_def colorScores_def scoreAccentElements_def)
  qed
  have "n6 \<le> candidateCount cd"
    using length_countOccurrences [of "links cd"] length_countOccurrences [of "borders cd"]
    by (simp add: n6_def n5_def n4_def n3_def n2_def n1_def candidateCount_def)
  with 6 have "P (candidateCount cd) (colorScores cd)" by (rule mono)
  then show ?thesis by (simp add: P_def)
qed

lemma updated_single:
  assumes "categories e = [] \<longrightarrow> total e = 0" "\<forall>cat v. categories e = [(cat, v)] \<longrightarrow> total e = v"
  shows "setKey (categories e) cat (double (orZero (map_of (categories e) cat) + s)) = [(cat', v')] \<longrightarrow>
           double (total e + s) = v'"
proof (cases "categories e")
  case Nil
  with assms(1) show ?thesis by (auto simp: setKey_def hasKey_def)
next
  case (Cons x xs)
  note C = this
  show ?thesis
  proof (cases xs)
    case Nil
    obtain k v where x: "x = (k, v)" by (cases x)
    with C Nil assms(2) have "total e = v" by simp
    with C Nil x show ?thesis by (auto simp: setKey_def hasKey_def)
  next
    case (Cons y ys)
    with C have "2 \<le> length (categories e)" by simp
    with length_setKey [of "categories e" cat "double (orZero (map_of (categories e) cat) + s)"]
    show ?thesis by auto
  qed
qed

lemma addScore_single:
  assumes ok: "\<forall>(k, e) \<in> set cs. (categories e = [] \<longrightarrow> total e = 0) \<and>
                  (\<forall>cat v. categories e = [(cat, v)] \<longrightarrow> total e = v)"
  shows "\<forall>(k, e) \<in> set (addScore c s cat cs). categories e \<noteq> [] \<and>
            (\<forall>cat v. categories e = [(cat, v)] \<longrightarrow> total e = v) \<or>
            (k, e) \<in> set cs"
proof (cases "c = []")
  case True
  then show ?thesis by (auto simp: addScore_def)
next
  case False
  define k0 where "k0 = toLowerCase c"
  define new where "new = (k0, \<lparr>total = 0, categories = [], vibrancy = getColorVibrancy k0\<rparr>)"
  define cs' where "cs' = (if \<not> hasKey cs k0 then cs @ [new] else cs)"
  define upd where "upd = (\<lambda>(k, entry :: scoreEntry).
                  if k = k0
                  then (k, entry\<lparr>total := double (total entry + s),
                                 categories := setKey (categories entry) cat
                                                 (double (orZero (map_of (categories entry) cat) + s))\<rparr>)
                  else (k, entry))"
  have a: "addScore c s cat cs = map upd cs'"
    using False by (simp add: addScore_def Let_def k0_def cs'_def upd_def new_def)
  have pre: "(categories e = [] \<longrightarrow> total e = 0) \<and> (\<forall>cat v. categories e = [(cat, v)] \<longrightarrow> total e = v)"
    if "(k, e) \<in> set cs'" for k e
  proof (cases "(k, e) \<in> set cs")
    case True
    with ok show ?thesis by auto
  next
    case False
    with that have "(k, e) = new" by (auto simp: cs'_def split: if_splits)
    then show ?thesis by (simp add: new_def)
  qed
  have "categories e' \<noteq> [] \<and> (\<forall>cat v. categories e' = [(cat, v)] \<longrightarrow> total e' = v) \<or> (k', e') \<in> set cs"
    if "(k', e') \<in> set (map upd cs')" for k' e'
  proof -
    from that obtain k e where ke: "(k, e) \<in> set cs'" and u: "(k', e') = upd (k, e)" by auto
    show ?thesis
    proof (cases "k = k0")
      case True
      with u have e': "e' = e\<lparr>total := double (total e + s),
                    categories := setKey (categories e) cat
                                    (double (orZero (map_of (categories e) cat) + s))\<rparr>"
        by (simp add: upd_def)
      from pre [OF ke] updated_single [of e cat s]
      have "\<forall>cat' v'. categories e' = [(cat', v')] \<longrightarrow> total e' = v'" by (simp add: e')
      moreover have "categories e' \<noteq> []" by (simp add: e' setKey_nonempty)
      ultimately show ?thesis by blast
    next
      case False
      with u have "k' = k" "e' = e" by (simp_all add: upd_def)
      moreover from False ke have "(k, e) \<in> set cs" by (auto simp: cs'_def new_def split: if_splits)
      ultimately show ?thesis by simp
    qed
  qed
  then show ?thesis unfolding a by blast
qed

lemma addScore_single_invariant:
  assumes "\<forall>(k, e) \<in> set cs. categories e \<noteq> [] \<and> (\<forall>cat v. categories e = [(cat, v)] \<longrightarrow> total e = v)"
  shows "\<forall>(k, e) \<in> set (addScore c s cat cs).
            categories e \<noteq> [] \<and> (\<forall>cat v. categories e = [(cat, v)] \<longrightarrow> total e = v)"
proof -
  from assms have "\<forall>(k, e) \<in> set cs. (categories e = [] \<longrightarrow> total e = 0) \<and>
                  (\<forall>cat v. categories e = [(cat, v)] \<longrightarrow> total e = v)" by auto
  from addScore_single [OF this, of c s cat] assms show ?thesis by (auto simp: case_prod_unfold)
qed

lemma foldl_invariant:
  assumes "P s" and "\<And>x s. x \<in> set xs \<Longrightarrow> P s \<Longrightarrow> P (f s x)"
  shows "P (foldl f s xs)"
  using assms by (induction xs arbitrary: s) simp_all

lemma colorScores_single:
  "\<forall>(k, e) \<in> set (colorScores cd).
      categories e \<noteq> [] \<and> (\<forall>cat v. categories e = [(cat, v)] \<longrightarrow> total e = v)"
proof -
  let ?P = "\<lambda>cs :: scoreMap. \<forall>(k, e) \<in> set cs.
      categories e \<noteq> [] \<and> (\<forall>cat v. categories e = [(cat, v)] \<longrightarrow> total e = v)"
  have 0: "?P []" by simp
  have 1: "?P (scoreButtons (buttons cd) [])"
    unfolding scoreButtons_def by (rule foldl_invariant [of ?P, OF 0]) (rule addScore_single_invariant)
  have 2: "?P (scoreLinks (links cd) (scoreButtons (buttons cd) []))"
    unfolding scoreLinks_def
  proof (rule foldl_invariant [of ?P, OF 1])
    fix x :: "string \<times> nat" and cs :: scoreMap
    assume cs: "?P cs"
    obtain c n where x: "x = (c, n)" by (cases x)
    from addScore_single_invariant [OF cs, of c "linkScore c n" Link] x
    show "?P (case x of (c, count) \<Rightarrow> addScore c (linkScore c count) Link cs)"
      by simp
  qed
  have 3: "?P (scoreBackgrounds (colorData.backgrounds cd) (scoreLinks (links cd) (scoreButtons (buttons cd) [])))"
    unfolding scoreBackgrounds_def by (rule foldl_invariant [of ?P, OF 2]) (rule addScore_single_invariant)
  have 4: "?P (scoreBorders (borders cd) (scoreBackgrounds (colorData.backgrounds cd)
             (scoreLinks (links cd) (scoreButtons (buttons cd) []))))"
    unfolding scoreBorders_def
  proof (rule foldl_invariant [of ?P, OF 3])
    fix x :: "string \<times> nat" and cs :: scoreMap
    assume cs: "?P cs"
    obtain c n where x: "x = (c, n)" by (cases x)
    from addScore_single_invariant [OF cs, of c "borderScore c n" Border] cs x
    show "?P (case x of (c, count) \<Rightarrow>
            if getColorVibrancy c > double (3 / 10) then addScore c (borderScore c count) Border cs else cs)"
      by simp
  qed
  have 5: "?P (scoreSvgColors (svgColors cd) (scoreBorders (borders cd)
             (scoreBackgrounds (colorData.backgrounds cd) (scoreLinks (links cd) (scoreButtons (buttons cd) [])))))"
  proof (cases "svgColors cd")
    case None
    with 4 show ?thesis by (simp add: scoreSvgColors_def)
  next
    case (Some ss)
    have "?P (foldl (\<lambda>cs svg. addScore (colorArea.color svg) (svgScore svg) Svg cs)
            (scoreBorders (borders cd) (scoreBackgrounds (colorData.backgrounds cd)
               (scoreLinks (links cd) (scoreButtons (buttons cd) [])))) ss)"
      by (rule foldl_invariant [of ?P, OF 4]) (rule addScore_single_invariant)
    with Some show ?thesis by (simp add: scoreSvgColors_def)
  qed
  show ?thesis
  proof (cases "accentElements cd")
    case None
    with 5 show ?thesis by (simp add: colorScores_def scoreAccentElements_def)
  next
    case (Some as)
    have "?P (foldl (\<lambda>cs accent. addScore (colorArea.color accent) (accentScore accent) Accent cs)
            (scoreSvgColors (svgColors cd) (scoreBorders (borders cd)
               (scoreBackgrounds (colorData.backgrounds cd) (scoreLinks (links cd) (scoreButtons (buttons cd) []))))) as)"
      by (rule foldl_invariant [of ?P, OF 5]) (rule addScore_single_invariant)
    with Some show ?thesis by (simp add: colorScores_def scoreAccentElements_def)
  qed
qed

text \<open>
  Claim C4, as amended. On candidate lists as the renderer produces them (hex colours,
  button areas not negative), after all candidates are processed, every entry of the
  score map has a total that differs from the sum of its per-category subtotals by at
  most \<open>N\<close> times \<open>2 ^ - 52\<close> of the total, where \<open>N\<close> is the number of candidates;
  there is one subtotal per category, each between \<open>0\<close> and the total; and the total
  equals the subtotal when the colour has a single category. Every single score addition
  of a score that is not negative keeps the bound, with one more addition counted.
\<close>

theorem total_is_sum_up_to_rounding:
  assumes "rendererColors cd"
  shows "(\<forall>(c, e) \<in> set (colorScores cd).
            \<bar>total e - sum_list (map snd (categories e))\<bar>
              \<le> of_nat (candidateCount cd) * 2 powi (- 52) * total e) \<and>
         (\<forall>(c, e) \<in> set (colorScores cd).
            distinct (map fst (categories e)) \<and>
            (\<forall>(cat, v) \<in> set (categories e). 0 \<le> v \<and> v \<le> total e)) \<and>
         (\<forall>(c, e) \<in> set (colorScores cd). \<forall>cat v. categories e = [(cat, v)] \<longrightarrow> total e = v) \<and>
         ((\<forall>(k, e) \<in> set cs. nearlyAdditive n e) \<and> 0 \<le> s \<longrightarrow>
            (\<forall>(k, e) \<in> set (addScore c s cat cs). nearlyAdditive (Suc n) e))"
proof -
  from colorScores_nearlyAdditive [OF assms]
  have 1: "\<forall>(c, e) \<in> set (colorScores cd).
            \<bar>total e - sum_list (map snd (categories e))\<bar>
              \<le> of_nat (candidateCount cd) * 2 powi (- 52) * total e"
    and 2: "\<forall>(c, e) \<in> set (colorScores cd).
            distinct (map fst (categories e)) \<and>
            (\<forall>(cat, v) \<in> set (categories e). 0 \<le> v \<and> v \<le> total e)"
    by (auto simp: nearlyAdditive_def)
  from colorScores_single [of cd]
  have 3: "\<forall>(c, e) \<in> set (colorScores cd). \<forall>cat v. categories e = [(cat, v)] \<longrightarrow> total e = v"
    by auto
  have 4: "(\<forall>(k, e) \<in> set cs. nearlyAdditive n e) \<and> 0 \<le> s \<longrightarrow>
            (\<forall>(k, e) \<in> set (addScore c s cat cs). nearlyAdditive (Suc n) e)"
    using addScore_nearlyAdditive by blast
  from 1 2 3 4 show ?thesis by blast
qed

section \<open>The example pages, evaluated\<close>

lemmas parse_defs = channels_def slice_def parseInt16_def isWhiteSpace_def hexDigit_def hexDigits_def
  digitVal_def
lemmas aggregate_defs = colorScores_def scoreButtons_def scoreLinks_def scoreBackgrounds_def
  scoreBorders_def scoreSvgColors_def scoreAccentElements_def countOccurrences_def
  addScore_def setKey_def hasKey_iff orZero_def buttonScore_def linkScore_def backgroundScore_def
  borderScore_def svgScore_def accentScore_def
lemmas select_defs = classifyRoles_def primaryColor_def secondaryColor_def
  accentColor_def bgColors_def textColorList_def countOccurrences_def sortDescBy_def nthOpt_def orElse_def truthyStr_def orDefault_def dedupe_def
  catValue_def truthyNum_def exceeds_def setKey_def hasKey_iff

text \<open>The roundings that the examples need, each computed from the definition of \<open>double\<close>.\<close>

lemma double_vals:
  "double (7177611906121727 / 143552238122434560) = 7205759403792793 / 144115188075855872"
  "double (1 / 20) = 3602879701896397 / 72057594037927936"
  "double (1 / 10) = 3602879701896397 / 36028797018963968"
  "double (57 / 500) = 8214565720323785 / 72057594037927936"
  "double (19471113219505603967277331424215 / 162259276829213363391578010288128) = 1080863910568919 / 9007199254740992"
  "double (1076641785918259 / 7177611906121728) = 2702159776422297 / 18014398509481984"
  "double (3 / 20) = 5404319552844595 / 36028797018963968"
  "double (3 / 16) = 3 / 16"
  "double (37860497926816450657394935312475 / 162259276829213363391578010288128) = 4203359652212463 / 18014398509481984"
  "double (1 / 4) = 1 / 4"
  "double (891689269971299 / 2990671627550720) = 5371116543827119 / 18014398509481984"
  "double (299 / 1000) = 5386305154335113 / 18014398509481984"
  "double (3 / 10) = 5404319552844595 / 18014398509481984"
  "double (2 / 5) = 3602879701896397 / 9007199254740992"
  "double (8214565720323785 / 18014398509481984) = 8214565720323785 / 18014398509481984"
  "double (2790261444132733 / 5981343255101440) = 4201805468811645 / 9007199254740992"
  "double (722481760534091 / 1495335813775360) = 8703780268081285 / 18014398509481984"
  "double (2347149462045983 / 4486007441326080) = 2356353969740281 / 4503599627370496"
  "double (4889572189184983 / 8972014882652160) = 1227186745520937 / 2251799813685248"
  "double (5193565164032491 / 8972014882652160) = 5213932086244383 / 9007199254740992"
  "double (587 / 1000) = 2643612981266481 / 4503599627370496"
  "double (7 / 9) = 7005599420354105 / 9007199254740992"
  "double (17 / 20) = 7656119366529843 / 9007199254740992"
  "double (7626212650254337 / 8972014882652160) = 1914029841632461 / 2251799813685248"
  "double (9 / 10) = 8106479329266893 / 9007199254740992"
  "double (19 / 20) = 4278419646001971 / 4503599627370496"
  "double (2206763817411543 / 2251799813685248) = 2206763817411543 / 2251799813685248"
  "double (49 / 50) = 2206763817411543 / 2251799813685248"
  "double 1 = 1"
  "double (90360222923561635 / 72057594037927936) = 2823756966361301 / 2251799813685248"
  "double (48476746389016017 / 18014398509481984) = 3029796649313501 / 1125899906842624"
  "double (106789354364209205 / 36028797018963968) = 6674334647763075 / 2251799813685248"
  "double (16158915463005339 / 4503599627370496) = 4039728865751335 / 1125899906842624"
  "double (45 / 8) = 45 / 8"
  "double 8 = 8"
  "double (39654194718997215 / 4503599627370496) = 1239193584968663 / 140737488355328"
  "double 10 = 10"
  "double (12943345329062805 / 1125899906842624) = 3235836332265701 / 281474976710656"
  "double (28710447624486909 / 2251799813685248) = 7177611906121727 / 562949953421312"
  "double (533946771821046025 / 36028797018963968) = 2085729577425961 / 140737488355328"
  "double 15 = 15"
  "double (125 / 8) = 125 / 8"
  "double (41072828601618925 / 2251799813685248) = 2567051787601183 / 140737488355328"
  "double 20 = 20"
  "double (1536123789700547795 / 72057594037927936) = 6000483553517765 / 281474976710656"
  "double (105083991305311575 / 4503599627370496) = 6567749456581973 / 281474976710656"
  "double (205 / 8) = 205 / 8"
  "double (2094714258682565175 / 72057594037927936) = 4091238786489385 / 140737488355328"
  "double 30 = 30"
  "double (71377550494194987 / 2251799813685248) = 8922193811774373 / 281474976710656"
  "double (39728504112848827 / 1125899906842624) = 4966063014106103 / 140737488355328"
  "double (285 / 8) = 285 / 8"
  "double (86131342873460723 / 2251799813685248) = 5383208929591295 / 140737488355328"
  "double (350109835031782345 / 9007199254740992) = 5470466172371599 / 140737488355328"
  "double 40 = 40"
  "double (824104688613272289 / 18014398509481984) = 3219158939895595 / 70368744177664"
  "double (3304516226583101 / 70368744177664) = 3304516226583101 / 70368744177664"
  "double (13218064906332405 / 281474976710656) = 3304516226583101 / 70368744177664"
  "double (26931525771675565 / 562949953421312) = 6732881442918891 / 140737488355328"
  "double (66090324531662025 / 1125899906842624) = 8261290566457753 / 140737488355328"
  "double (33101457261173145 / 562949953421312) = 4137682157646643 / 70368744177664"
  "double (134657628858377825 / 2251799813685248) = 4208050901824307 / 70368744177664"
  "double 70 = 70"
  "double (10700271239655587 / 140737488355328) = 2675067809913897 / 35184372088832"
  "double (1373507814355453815 / 18014398509481984) = 5365264899825991 / 70368744177664"
  "double (171834843782321265 / 2251799813685248) = 1342459717049385 / 17592186044416"
  "double 80 = 80"
  "double (13218064906332405 / 140737488355328) = 3304516226583101 / 35184372088832"
  "double 108 = 108"
  "double (16210143908766679 / 140737488355328) = 2026267988595835 / 17592186044416"
  "double (16677392370106367 / 140737488355328) = 237 / 2"
  "double (8359806808306483 / 70368744177664) = 8359806808306483 / 70368744177664"
  "double (2142920789093938889 / 18014398509481984) = 8370784332398199 / 70368744177664"
  "double (2167445281602273 / 17592186044416) = 2167445281602273 / 17592186044416"
  "double (17472559179313971 / 140737488355328) = 4368139794828493 / 35184372088832"
  "double 130 = 130"
  "double (36967046941332821 / 281474976710656) = 4620880867666603 / 35184372088832"
  "double (4620880867666603 / 35184372088832) = 4620880867666603 / 35184372088832"
  "double (18688531078704003 / 140737488355328) = 4672132769676001 / 35184372088832"
  "double (18777195696367863 / 140737488355328) = 2347149462045983 / 17592186044416"
  "double (9415337970971443 / 70368744177664) = 2353834492742861 / 17592186044416"
  "double (19558288756739933 / 140737488355328) = 4889572189184983 / 35184372088832"
  "double (20774260656129965 / 140737488355328) = 5193565164032491 / 35184372088832"
  "double (674121310222952655 / 4503599627370496) = 2633286368058409 / 17592186044416"
  "double (13752304412129231 / 70368744177664) = 859519025758077 / 4398046511104"
  "double (61009701202034693 / 281474976710656) = 7626212650254337 / 35184372088832"
  "double 230 = 230"
  "double (8359806808306483 / 35184372088832) = 8359806808306483 / 35184372088832"
  "double (8887572389638963 / 35184372088832) = 8887572389638963 / 35184372088832"
  "double (17775144779277927 / 70368744177664) = 2221893097409741 / 8796093022208"
  "double (2353834492742861 / 8796093022208) = 2353834492742861 / 8796093022208"
  "double 4000 = 4000"
  "double (15474250491067252973046490140361 / 309485009821345068724781056) = 50000"
proof -
  show "double (7177611906121727 / 143552238122434560) = 7205759403792793 / 144115188075855872"
    by (rule double_eval_lt1 [of 5 _ 7205759403792793]) simp_all
  show "double (1 / 20) = 3602879701896397 / 72057594037927936"
    by (rule double_eval_lt1 [of 5 _ 7205759403792794]) simp_all
  show "double (1 / 10) = 3602879701896397 / 36028797018963968"
    by (rule double_eval_lt1 [of 4 _ 7205759403792794]) simp_all
  show "double (57 / 500) = 8214565720323785 / 72057594037927936"
    by (rule double_eval_lt1 [of 4 _ 8214565720323785]) simp_all
  show "double (19471113219505603967277331424215 / 162259276829213363391578010288128) = 1080863910568919 / 9007199254740992"
    by (rule double_eval_lt1 [of 4 _ 8646911284551352]) simp_all
  show "double (1076641785918259 / 7177611906121728) = 2702159776422297 / 18014398509481984"
    by (rule double_eval_lt1 [of 3 _ 5404319552844594]) simp_all
  show "double (3 / 20) = 5404319552844595 / 36028797018963968"
    by (rule double_eval_lt1 [of 3 _ 5404319552844595]) simp_all
  show "double (3 / 16) = 3 / 16"
    by (rule double_eval_lt1 [of 3 _ 6755399441055744]) simp_all
  show "double (37860497926816450657394935312475 / 162259276829213363391578010288128) = 4203359652212463 / 18014398509481984"
    by (rule double_eval_lt1 [of 3 _ 8406719304424926]) simp_all
  show "double (1 / 4) = 1 / 4"
    by (rule double_eval_lt1 [of 2 _ 4503599627370496]) simp_all
  show "double (891689269971299 / 2990671627550720) = 5371116543827119 / 18014398509481984"
    by (rule double_eval_lt1 [of 2 _ 5371116543827119]) simp_all
  show "double (299 / 1000) = 5386305154335113 / 18014398509481984"
    by (rule double_eval_lt1 [of 2 _ 5386305154335113]) simp_all
  show "double (3 / 10) = 5404319552844595 / 18014398509481984"
    by (rule double_eval_lt1 [of 2 _ 5404319552844595]) simp_all
  show "double (2 / 5) = 3602879701896397 / 9007199254740992"
    by (rule double_eval_lt1 [of 2 _ 7205759403792794]) simp_all
  show "double (8214565720323785 / 18014398509481984) = 8214565720323785 / 18014398509481984"
    by (rule double_eval_lt1 [of 2 _ 8214565720323785]) simp_all
  show "double (2790261444132733 / 5981343255101440) = 4201805468811645 / 9007199254740992"
    by (rule double_eval_lt1 [of 2 _ 8403610937623290]) simp_all
  show "double (722481760534091 / 1495335813775360) = 8703780268081285 / 18014398509481984"
    by (rule double_eval_lt1 [of 2 _ 8703780268081285]) simp_all
  show "double (2347149462045983 / 4486007441326080) = 2356353969740281 / 4503599627370496"
    by (rule double_eval_lt1 [of 1 _ 4712707939480562]) simp_all
  show "double (4889572189184983 / 8972014882652160) = 1227186745520937 / 2251799813685248"
    by (rule double_eval_lt1 [of 1 _ 4908746982083748]) simp_all
  show "double (5193565164032491 / 8972014882652160) = 5213932086244383 / 9007199254740992"
    by (rule double_eval_lt1 [of 1 _ 5213932086244383]) simp_all
  show "double (587 / 1000) = 2643612981266481 / 4503599627370496"
    by (rule double_eval_lt1 [of 1 _ 5287225962532962]) simp_all
  show "double (7 / 9) = 7005599420354105 / 9007199254740992"
    by (rule double_eval_lt1 [of 1 _ 7005599420354105]) simp_all
  show "double (17 / 20) = 7656119366529843 / 9007199254740992"
    by (rule double_eval_lt1 [of 1 _ 7656119366529843]) simp_all
  show "double (7626212650254337 / 8972014882652160) = 1914029841632461 / 2251799813685248"
    by (rule double_eval_lt1 [of 1 _ 7656119366529844]) simp_all
  show "double (9 / 10) = 8106479329266893 / 9007199254740992"
    by (rule double_eval_lt1 [of 1 _ 8106479329266893]) simp_all
  show "double (19 / 20) = 4278419646001971 / 4503599627370496"
    by (rule double_eval_lt1 [of 1 _ 8556839292003942]) simp_all
  show "double (2206763817411543 / 2251799813685248) = 2206763817411543 / 2251799813685248"
    by (rule double_eval_lt1 [of 1 _ 8827055269646172]) simp_all
  show "double (49 / 50) = 2206763817411543 / 2251799813685248"
    by (rule double_eval_lt1 [of 1 _ 8827055269646172]) simp_all
  show "double 1 = 1"
    by (rule double_eval_ge1 [of 0 _ 4503599627370496]) simp_all
  show "double (90360222923561635 / 72057594037927936) = 2823756966361301 / 2251799813685248"
    by (rule double_eval_ge1 [of 0 _ 5647513932722602]) simp_all
  show "double (48476746389016017 / 18014398509481984) = 3029796649313501 / 1125899906842624"
    by (rule double_eval_ge1 [of 1 _ 6059593298627002]) simp_all
  show "double (106789354364209205 / 36028797018963968) = 6674334647763075 / 2251799813685248"
    by (rule double_eval_ge1 [of 1 _ 6674334647763075]) simp_all
  show "double (16158915463005339 / 4503599627370496) = 4039728865751335 / 1125899906842624"
    by (rule double_tie_ge1 [of 1 _ 8079457731502669]) simp_all
  show "double (45 / 8) = 45 / 8"
    by (rule double_eval_ge1 [of 2 _ 6333186975989760]) simp_all
  show "double 8 = 8"
    by (rule double_eval_ge1 [of 3 _ 4503599627370496]) simp_all
  show "double (39654194718997215 / 4503599627370496) = 1239193584968663 / 140737488355328"
    by (rule double_eval_ge1 [of 3 _ 4956774339874652]) simp_all
  show "double 10 = 10"
    by (rule double_eval_ge1 [of 3 _ 5629499534213120]) simp_all
  show "double (12943345329062805 / 1125899906842624) = 3235836332265701 / 281474976710656"
    by (rule double_tie_ge1 [of 3 _ 6471672664531402]) simp_all
  show "double (28710447624486909 / 2251799813685248) = 7177611906121727 / 562949953421312"
    by (rule double_eval_ge1 [of 3 _ 7177611906121727]) simp_all
  show "double (533946771821046025 / 36028797018963968) = 2085729577425961 / 140737488355328"
    by (rule double_eval_ge1 [of 3 _ 8342918309703844]) simp_all
  show "double 15 = 15"
    by (rule double_eval_ge1 [of 3 _ 8444249301319680]) simp_all
  show "double (125 / 8) = 125 / 8"
    by (rule double_eval_ge1 [of 3 _ 8796093022208000]) simp_all
  show "double (41072828601618925 / 2251799813685248) = 2567051787601183 / 140737488355328"
    by (rule double_eval_ge1 [of 4 _ 5134103575202366]) simp_all
  show "double 20 = 20"
    by (rule double_eval_ge1 [of 4 _ 5629499534213120]) simp_all
  show "double (1536123789700547795 / 72057594037927936) = 6000483553517765 / 281474976710656"
    by (rule double_eval_ge1 [of 4 _ 6000483553517765]) simp_all
  show "double (105083991305311575 / 4503599627370496) = 6567749456581973 / 281474976710656"
    by (rule double_eval_ge1 [of 4 _ 6567749456581973]) simp_all
  show "double (205 / 8) = 205 / 8"
    by (rule double_eval_ge1 [of 4 _ 7212796278210560]) simp_all
  show "double (2094714258682565175 / 72057594037927936) = 4091238786489385 / 140737488355328"
    by (rule double_eval_ge1 [of 4 _ 8182477572978770]) simp_all
  show "double 30 = 30"
    by (rule double_eval_ge1 [of 4 _ 8444249301319680]) simp_all
  show "double (71377550494194987 / 2251799813685248) = 8922193811774373 / 281474976710656"
    by (rule double_eval_ge1 [of 4 _ 8922193811774373]) simp_all
  show "double (39728504112848827 / 1125899906842624) = 4966063014106103 / 140737488355328"
    by (rule double_eval_ge1 [of 5 _ 4966063014106103]) simp_all
  show "double (285 / 8) = 285 / 8"
    by (rule double_eval_ge1 [of 5 _ 5013773022658560]) simp_all
  show "double (86131342873460723 / 2251799813685248) = 5383208929591295 / 140737488355328"
    by (rule double_eval_ge1 [of 5 _ 5383208929591295]) simp_all
  show "double (350109835031782345 / 9007199254740992) = 5470466172371599 / 140737488355328"
    by (rule double_eval_ge1 [of 5 _ 5470466172371599]) simp_all
  show "double 40 = 40"
    by (rule double_eval_ge1 [of 5 _ 5629499534213120]) simp_all
  show "double (824104688613272289 / 18014398509481984) = 3219158939895595 / 70368744177664"
    by (rule double_eval_ge1 [of 5 _ 6438317879791190]) simp_all
  show "double (3304516226583101 / 70368744177664) = 3304516226583101 / 70368744177664"
    by (rule double_eval_ge1 [of 5 _ 6609032453166202]) simp_all
  show "double (13218064906332405 / 281474976710656) = 3304516226583101 / 70368744177664"
    by (rule double_tie_ge1 [of 5 _ 6609032453166202]) simp_all
  show "double (26931525771675565 / 562949953421312) = 6732881442918891 / 140737488355328"
    by (rule double_eval_ge1 [of 5 _ 6732881442918891]) simp_all
  show "double (66090324531662025 / 1125899906842624) = 8261290566457753 / 140737488355328"
    by (rule double_eval_ge1 [of 5 _ 8261290566457753]) simp_all
  show "double (33101457261173145 / 562949953421312) = 4137682157646643 / 70368744177664"
    by (rule double_eval_ge1 [of 5 _ 8275364315293286]) simp_all
  show "double (134657628858377825 / 2251799813685248) = 4208050901824307 / 70368744177664"
    by (rule double_eval_ge1 [of 5 _ 8416101803648614]) simp_all
  show "double 70 = 70"
    by (rule double_eval_ge1 [of 6 _ 4925812092436480]) simp_all
  show "double (10700271239655587 / 140737488355328) = 2675067809913897 / 35184372088832"
    by (rule double_tie_ge1 [of 6 _ 5350135619827793]) simp_all
  show "double (1373507814355453815 / 18014398509481984) = 5365264899825991 / 70368744177664"
    by (rule double_eval_ge1 [of 6 _ 5365264899825991]) simp_all
  show "double (171834843782321265 / 2251799813685248) = 1342459717049385 / 17592186044416"
    by (rule double_eval_ge1 [of 6 _ 5369838868197540]) simp_all
  show "double 80 = 80"
    by (rule double_eval_ge1 [of 6 _ 5629499534213120]) simp_all
  show "double (13218064906332405 / 140737488355328) = 3304516226583101 / 35184372088832"
    by (rule double_tie_ge1 [of 6 _ 6609032453166202]) simp_all
  show "double 108 = 108"
    by (rule double_eval_ge1 [of 6 _ 7599824371187712]) simp_all
  show "double (16210143908766679 / 140737488355328) = 2026267988595835 / 17592186044416"
    by (rule double_tie_ge1 [of 6 _ 8105071954383339]) simp_all
  show "double (16677392370106367 / 140737488355328) = 237 / 2"
    by (rule double_tie_ge1 [of 6 _ 8338696185053183]) simp_all
  show "double (8359806808306483 / 70368744177664) = 8359806808306483 / 70368744177664"
    by (rule double_eval_ge1 [of 6 _ 8359806808306483]) simp_all
  show "double (2142920789093938889 / 18014398509481984) = 8370784332398199 / 70368744177664"
    by (rule double_eval_ge1 [of 6 _ 8370784332398199]) simp_all
  show "double (2167445281602273 / 17592186044416) = 2167445281602273 / 17592186044416"
    by (rule double_eval_ge1 [of 6 _ 8669781126409092]) simp_all
  show "double (17472559179313971 / 140737488355328) = 4368139794828493 / 35184372088832"
    by (rule double_tie_ge1 [of 6 _ 8736279589656985]) simp_all
  show "double 130 = 130"
    by (rule double_eval_ge1 [of 7 _ 4573968371548160]) simp_all
  show "double (36967046941332821 / 281474976710656) = 4620880867666603 / 35184372088832"
    by (rule double_eval_ge1 [of 7 _ 4620880867666603]) simp_all
  show "double (4620880867666603 / 35184372088832) = 4620880867666603 / 35184372088832"
    by (rule double_eval_ge1 [of 7 _ 4620880867666603]) simp_all
  show "double (18688531078704003 / 140737488355328) = 4672132769676001 / 35184372088832"
    by (rule double_eval_ge1 [of 7 _ 4672132769676001]) simp_all
  show "double (18777195696367863 / 140737488355328) = 2347149462045983 / 17592186044416"
    by (rule double_eval_ge1 [of 7 _ 4694298924091966]) simp_all
  show "double (9415337970971443 / 70368744177664) = 2353834492742861 / 17592186044416"
    by (rule double_tie_ge1 [of 7 _ 4707668985485721]) simp_all
  show "double (19558288756739933 / 140737488355328) = 4889572189184983 / 35184372088832"
    by (rule double_eval_ge1 [of 7 _ 4889572189184983]) simp_all
  show "double (20774260656129965 / 140737488355328) = 5193565164032491 / 35184372088832"
    by (rule double_eval_ge1 [of 7 _ 5193565164032491]) simp_all
  show "double (674121310222952655 / 4503599627370496) = 2633286368058409 / 17592186044416"
    by (rule double_eval_ge1 [of 7 _ 5266572736116818]) simp_all
  show "double (13752304412129231 / 70368744177664) = 859519025758077 / 4398046511104"
    by (rule double_tie_ge1 [of 7 _ 6876152206064615]) simp_all
  show "double (61009701202034693 / 281474976710656) = 7626212650254337 / 35184372088832"
    by (rule double_eval_ge1 [of 7 _ 7626212650254337]) simp_all
  show "double 230 = 230"
    by (rule double_eval_ge1 [of 7 _ 8092405580431360]) simp_all
  show "double (8359806808306483 / 35184372088832) = 8359806808306483 / 35184372088832"
    by (rule double_eval_ge1 [of 7 _ 8359806808306483]) simp_all
  show "double (8887572389638963 / 35184372088832) = 8887572389638963 / 35184372088832"
    by (rule double_eval_ge1 [of 7 _ 8887572389638963]) simp_all
  show "double (17775144779277927 / 70368744177664) = 2221893097409741 / 8796093022208"
    by (rule double_tie_ge1 [of 7 _ 8887572389638963]) simp_all
  show "double (2353834492742861 / 8796093022208) = 2353834492742861 / 8796093022208"
    by (rule double_eval_ge1 [of 8 _ 4707668985485722]) simp_all
  show "double 4000 = 4000"
    by (rule double_eval_ge1 [of 11 _ 8796093022208000]) simp_all
  show "double (15474250491067252973046490140361 / 309485009821345068724781056) = 50000"
    by (rule double_eval_ge1 [of 15 _ 6871947673600000]) simp_all
qed


text \<open>
  The example colours. Three of them sit next to a threshold: the luminance of
  \<open>#0c361a\<close> is \<open>0.14999999999999997\<close>, below \<open>0.15\<close>, so the colour is dark; that of
  \<open>#090f0b\<close> is \<open>0.049999999999999996\<close>, below \<open>0.05\<close>, so the colour is no brand
  colour; that of \<open>#99ffbb\<close> is \<open>0.8500000000000001\<close>, above \<open>0.85\<close>, so its
  vibrancy is \<open>0.4 * 0.3\<close>. In exact arithmetic the three luminances would be \<open>0.15\<close>,
  \<open>0.05\<close> and \<open>0.85\<close>.
\<close>

lemma channels_examples:
  "channels ''#ff5000'' = Some (255, 80, 0)"
  "channels ''#0050ff'' = Some (0, 80, 255)"
  "channels ''#a08282'' = Some (160, 130, 130)"
  "channels ''#82a082'' = Some (130, 160, 130)"
  "channels ''#8282a0'' = Some (130, 130, 160)"
  "channels ''#c86404'' = Some (200, 100, 4)"
  "channels ''#0c361a'' = Some (12, 54, 26)"
  "channels ''#99ffbb'' = Some (153, 255, 187)"
  "channels ''#090f0b'' = Some (9, 15, 11)"
  by (simp_all add: parse_defs)

lemma toLowerCase_examples:
  "toLowerCase ''#ff5000'' = ''#ff5000''"
  "toLowerCase ''#0050ff'' = ''#0050ff''"
  "toLowerCase ''#a08282'' = ''#a08282''"
  "toLowerCase ''#82a082'' = ''#82a082''"
  "toLowerCase ''#8282a0'' = ''#8282a0''"
  "toLowerCase ''#c86404'' = ''#c86404''"
  "toLowerCase ''#0c361a'' = ''#0c361a''"
  "toLowerCase ''#99ffbb'' = ''#99ffbb''"
  "toLowerCase ''#090f0b'' = ''#090f0b''"
  by (simp_all add: toLowerCase_def toLowerChar_def)

lemma luminance_examples:
  "luminance 255 80 0 = 8703780268081285 / 18014398509481984"
  "luminance 0 80 255 = 5371116543827119 / 18014398509481984"
  "luminance 160 130 130 = 1227186745520937 / 2251799813685248"
  "luminance 130 160 130 = 5213932086244383 / 9007199254740992"
  "luminance 130 130 160 = 2356353969740281 / 4503599627370496"
  "luminance 200 100 4 = 4201805468811645 / 9007199254740992"
  "luminance 12 54 26 = 2702159776422297 / 18014398509481984"
  "luminance 153 255 187 = 1914029841632461 / 2251799813685248"
  "luminance 9 15 11 = 7205759403792793 / 144115188075855872"
  by (simp_all add: luminance_def double_vals)

lemma saturation_examples:
  "saturationR double 255 80 0 = 1"
  "saturationR double 0 80 255 = 1"
  "saturationR double 160 130 130 = 3 / 16"
  "saturationR double 130 160 130 = 3 / 16"
  "saturationR double 130 130 160 = 3 / 16"
  "saturationR double 200 100 4 = 2206763817411543 / 2251799813685248"
  "saturationR double 12 54 26 = 7005599420354105 / 9007199254740992"
  "saturationR double 153 255 187 = 3602879701896397 / 9007199254740992"
  "saturationR double 9 15 11 = 3602879701896397 / 9007199254740992"
  by (simp_all add: saturationR_def double_vals)

lemma vibrancy_examples:
  "getColorVibrancy ''#ff5000'' = 1"
  "getColorVibrancy ''#0050ff'' = 1"
  "getColorVibrancy ''#a08282'' = 3 / 16"
  "getColorVibrancy ''#82a082'' = 3 / 16"
  "getColorVibrancy ''#8282a0'' = 3 / 16"
  "getColorVibrancy ''#c86404'' = 2206763817411543 / 2251799813685248"
  "getColorVibrancy ''#0c361a'' = 4203359652212463 / 18014398509481984"
  "getColorVibrancy ''#99ffbb'' = 1080863910568919 / 9007199254740992"
  "getColorVibrancy ''#090f0b'' = 1080863910568919 / 9007199254740992"
  by (simp_all add: getColorVibrancy_def channels_examples luminance_examples saturation_examples
      double_vals)

lemma neutralOrDark_examples:
  "\<not> isNeutralOrDark ''#ff5000''"
  "\<not> isNeutralOrDark ''#0050ff''"
  "isNeutralOrDark ''#a08282''"
  "isNeutralOrDark ''#82a082''"
  "isNeutralOrDark ''#8282a0''"
  "\<not> isNeutralOrDark ''#c86404''"
  "isNeutralOrDark ''#0c361a''"
  "\<not> isNeutralOrDark ''#99ffbb''"
  "isNeutralOrDark ''#090f0b''"
  by (simp_all add: isNeutralOrDark_def channels_examples luminance_examples saturation_examples
      double_vals)

lemma validBrandColor_examples:
  "isValidBrandColor ''#ff5000''"
  "isValidBrandColor ''#0050ff''"
  "isValidBrandColor ''#a08282''"
  "isValidBrandColor ''#82a082''"
  "isValidBrandColor ''#8282a0''"
  "isValidBrandColor ''#c86404''"
  "isValidBrandColor ''#0c361a''"
  "isValidBrandColor ''#99ffbb''"
  "\<not> isValidBrandColor ''#090f0b''"
  by (simp_all add: isValidBrandColor_def channels_examples luminance_examples saturation_examples
      double_vals)

lemmas example_colours = toLowerCase_examples vibrancy_examples neutralOrDark_examples
  validBrandColor_examples

lemma colorScores_oneMutedLink:
  "colorScores oneMutedLink =
     [(''#a08282'', \<lparr>total = 125 / 8, categories = [(Link, 125 / 8)], vibrancy = 3 / 16\<rparr>)]"
  by (simp add: oneMutedLink_def noCandidates_def aggregate_defs example_colours double_vals)

lemma colorScores_threeMutedLinks:
  "colorScores threeMutedLinks =
     [(''#a08282'', \<lparr>total = 285 / 8, categories = [(Link, 285 / 8)], vibrancy = 3 / 16\<rparr>),
      (''#82a082'', \<lparr>total = 205 / 8, categories = [(Link, 205 / 8)], vibrancy = 3 / 16\<rparr>),
      (''#8282a0'', \<lparr>total = 125 / 8, categories = [(Link, 125 / 8)], vibrancy = 3 / 16\<rparr>)]"
  by (simp add: threeMutedLinks_def noCandidates_def aggregate_defs example_colours double_vals)

lemma colorScores_twoSvgColors:
  "colorScores twoSvgColors =
     [(''#ff5000'', \<lparr>total = 230, categories = [(Svg, 230)], vibrancy = 1\<rparr>),
      (''#0050ff'', \<lparr>total = 130, categories = [(Svg, 130)], vibrancy = 1\<rparr>)]"
  by (simp add: twoSvgColors_def noCandidates_def aggregate_defs example_colours double_vals)

lemma colorScores_orangeSectionTwoBadges:
  "colorScores orangeSectionTwoBadges =
     [(''#c86404'', \<lparr>total = 2221893097409741 / 8796093022208, categories = [(Background, 15), (Accent, 8359806808306483 / 35184372088832)], vibrancy = 2206763817411543 / 2251799813685248\<rparr>)]"
  by (simp add: orangeSectionTwoBadges_def noCandidates_def aggregate_defs example_colours double_vals)

lemma colorScores_darkGreenButtonOrangeLogo:
  "colorScores darkGreenButtonOrangeLogo =
     [(''#0c361a'', \<lparr>total = 4620880867666603 / 35184372088832, categories = [(Button, 4620880867666603 / 35184372088832)], vibrancy = 4203359652212463 / 18014398509481984\<rparr>),
      (''#ff5000'', \<lparr>total = 230, categories = [(Svg, 230)], vibrancy = 1\<rparr>)]"
  by (simp add: darkGreenButtonOrangeLogo_def noCandidates_def aggregate_defs example_colours double_vals)

lemma colorScores_mintBorders:
  "colorScores mintBorders =
     []"
  by (simp add: mintBorders_def noCandidates_def aggregate_defs example_colours double_vals)

lemma colorScores_orangeBorders:
  "colorScores orangeBorders =
     [(''#ff5000'', \<lparr>total = 70, categories = [(Border, 70)], vibrancy = 1\<rparr>)]"
  by (simp add: orangeBorders_def noCandidates_def aggregate_defs example_colours double_vals)

lemma sortedColors_examples:
  "sortedColors
     [(''#a08282'', \<lparr>total = 125 / 8, categories = [(Link, 125 / 8)], vibrancy = 3 / 16\<rparr>)]
   = [(''#a08282'', \<lparr>total = 125 / 8, categories = [(Link, 125 / 8)], vibrancy = 3 / 16\<rparr>)]"
  "sortedColors
     [(''#a08282'', \<lparr>total = 285 / 8, categories = [(Link, 285 / 8)], vibrancy = 3 / 16\<rparr>),
      (''#82a082'', \<lparr>total = 205 / 8, categories = [(Link, 205 / 8)], vibrancy = 3 / 16\<rparr>),
      (''#8282a0'', \<lparr>total = 125 / 8, categories = [(Link, 125 / 8)], vibrancy = 3 / 16\<rparr>)]
   = [(''#a08282'', \<lparr>total = 285 / 8, categories = [(Link, 285 / 8)], vibrancy = 3 / 16\<rparr>),
      (''#82a082'', \<lparr>total = 205 / 8, categories = [(Link, 205 / 8)], vibrancy = 3 / 16\<rparr>),
      (''#8282a0'', \<lparr>total = 125 / 8, categories = [(Link, 125 / 8)], vibrancy = 3 / 16\<rparr>)]"
  "sortedColors
     [(''#ff5000'', \<lparr>total = 230, categories = [(Svg, 230)], vibrancy = 1\<rparr>),
      (''#0050ff'', \<lparr>total = 130, categories = [(Svg, 130)], vibrancy = 1\<rparr>)]
   = [(''#ff5000'', \<lparr>total = 230, categories = [(Svg, 230)], vibrancy = 1\<rparr>),
      (''#0050ff'', \<lparr>total = 130, categories = [(Svg, 130)], vibrancy = 1\<rparr>)]"
  "sortedColors
     [(''#0c361a'', \<lparr>total = 4620880867666603 / 35184372088832, categories = [(Button, 4620880867666603 / 35184372088832)], vibrancy = 4203359652212463 / 18014398509481984\<rparr>),
      (''#ff5000'', \<lparr>total = 230, categories = [(Svg, 230)], vibrancy = 1\<rparr>)]
   = [(''#ff5000'', \<lparr>total = 230, categories = [(Svg, 230)], vibrancy = 1\<rparr>),
      (''#0c361a'', \<lparr>total = 4620880867666603 / 35184372088832, categories = [(Button, 4620880867666603 / 35184372088832)], vibrancy = 4203359652212463 / 18014398509481984\<rparr>)]"
  "sortedColors
     [(''#ff5000'', \<lparr>total = 70, categories = [(Border, 70)], vibrancy = 1\<rparr>)]
   = [(''#ff5000'', \<lparr>total = 70, categories = [(Border, 70)], vibrancy = 1\<rparr>)]"
  by (simp_all add: sortedColors_def sortDescBy_def example_colours)


lemmas example_pages = colorScores_oneMutedLink colorScores_threeMutedLinks
  colorScores_twoSvgColors colorScores_darkGreenButtonOrangeLogo colorScores_orangeBorders
  sortedColors_examples

lemma raw_examples:
  "colorData.backgrounds oneMutedLink = []" "colorData.text oneMutedLink = []"
  "colorData.backgrounds threeMutedLinks = []" "colorData.text threeMutedLinks = []"
  "colorData.backgrounds twoSvgColors = []" "colorData.text twoSvgColors = []"
  "colorData.backgrounds darkGreenButtonOrangeLogo = []" "colorData.text darkGreenButtonOrangeLogo = []"
  "colorData.backgrounds orangeBorders = []" "colorData.text orangeBorders = []"
  by (simp_all add: oneMutedLink_def threeMutedLinks_def twoSvgColors_def darkGreenButtonOrangeLogo_def
      orangeBorders_def noCandidates_def)

lemma classifyColors_oneMutedLink:
  "classifyColors oneMutedLink =
     \<lparr>primary = Some ''#a08282'', secondary = Some ''#a08282'', background = ''#ffffff'',
      backgrounds = [], text = ''#000000'', textColors = [], accent = None,
      palette = [\<lparr>color = ''#a08282'', score = 125 / 8, usage = [Link]\<rparr>]\<rparr>"
  by (simp add: classifyColors_def raw_examples example_pages select_defs example_colours)




lemma classifyColors_orangeBorders:
  "classifyColors orangeBorders =
     \<lparr>primary = Some ''#ff5000'', secondary = None, background = ''#ffffff'',
      backgrounds = [], text = ''#000000'', textColors = [], accent = None,
      palette = [\<lparr>color = ''#ff5000'', score = 70, usage = [Border]\<rparr>]\<rparr>"
  by (simp add: classifyColors_def raw_examples example_pages select_defs example_colours)


text \<open>
  C2 at the page with the dark green button and the orange logo: no ranked entry has a
  button subtotal above \<open>50\<close> and is not neutral-or-dark, and the second step of the
  cascade selects the logo colour.
\<close>

theorem primary_selection_cascade_witness:
  "isNeutralOrDark ''#0c361a'' \<and>
   map fst (sortedColors (colorScores darkGreenButtonOrangeLogo)) = [''#ff5000'', ''#0c361a''] \<and>
   primary (classifyRoles (colorScores darkGreenButtonOrangeLogo) [] []) = Some ''#ff5000''"
proof -
  let ?cs = "colorScores darkGreenButtonOrangeLogo"
  have s: "map fst (sortedColors ?cs) = [''#ff5000'', ''#0c361a'']"
    by (simp add: example_pages)
  from primary_selection_cascade [of ?cs "[]" "[]"]
  have "primary (classifyRoles ?cs [] []) =
     (case find (\<lambda>(c, d). categorySubtotal d Button > 50 \<and> \<not> isNeutralOrDark c) (sortedColors ?cs) of
        Some (c, d) \<Rightarrow> Some c
      | None \<Rightarrow>
     (case find (\<lambda>(c, d). \<not> isNeutralOrDark c \<and> total d > 50) (sortedColors ?cs) of
        Some (c, d) \<Rightarrow> Some c
      | None \<Rightarrow>
     (case find (\<lambda>(c, d). categorySubtotal d Button > 50) (sortedColors ?cs) of
        Some (c, d) \<Rightarrow> Some c
      | None \<Rightarrow>
     (case sortedColors ?cs of (c, d) # _ \<Rightarrow> Some c | [] \<Rightarrow> None))))"
    by blast
  also have "\<dots> = Some ''#ff5000''"
    by (simp add: example_pages categorySubtotal_def example_colours)
  finally show ?thesis using s by (simp add: example_colours)
qed





lemma backgrounds_classifyRoles:
  "backgrounds (classifyRoles cs bgs ts) = dedupe (bgColors bgs)"
  by (simp add: classifyRoles_def Let_def)

lemma bgs_whiteSectionsDarkFooter:
  "colorData.backgrounds whiteSectionsDarkFooter =
       [\<lparr>colorArea.color = ''#ffffff'', area = 2073600, isHero = True\<rparr>,
        \<lparr>colorArea.color = ''#ffffff'', area = 1036800, isHero = False\<rparr>,
        \<lparr>colorArea.color = ''#ffffff'', area = 518400, isHero = False\<rparr>,
        \<lparr>colorArea.color = ''#111111'', area = 384000, isHero = False\<rparr>]"
  by (simp add: whiteSectionsDarkFooter_def noCandidates_def)

lemma ranked_whiteSectionsDarkFooter:
  "sortDescBy area (filter (\<lambda>b. area b > 50000) (colorData.backgrounds whiteSectionsDarkFooter)) =
     colorData.backgrounds whiteSectionsDarkFooter"
  by (simp add: bgs_whiteSectionsDarkFooter sortDescBy_def)

text \<open>
  Claim C5 as stated fails. Three white sections above a dark footer all exceed the area
  threshold. The first three distinct colours in area order are white and the footer's
  colour; the code takes the three largest candidates first, all white, and reports
  white alone.
\<close>

theorem backgrounds_claimed_counterexample:
  "backgrounds (classifyColors whiteSectionsDarkFooter) = [''#ffffff''] \<and>
   backgroundsClaimed (colorData.backgrounds whiteSectionsDarkFooter) = [''#ffffff'', ''#111111'']"
proof -
  have "backgrounds (classifyColors whiteSectionsDarkFooter) = [''#ffffff'']"
    unfolding classifyColors_def backgrounds_classifyRoles bgColors_def ranked_whiteSectionsDarkFooter
    by (simp add: bgs_whiteSectionsDarkFooter dedupe_def)
  moreover have "backgroundsClaimed (colorData.backgrounds whiteSectionsDarkFooter) = [''#ffffff'', ''#111111'']"
    unfolding backgroundsClaimed_def ranked_whiteSectionsDarkFooter
    by (simp add: bgs_whiteSectionsDarkFooter dedupe_def)
  ultimately show ?thesis by blast
qed

text \<open>The amended C5 at the same page: one reported background, which is the background.\<close>

theorem backgrounds_selection_witness:
  "[] \<notin> colorArea.color ` set (colorData.backgrounds whiteSectionsDarkFooter) \<and>
   backgrounds (classifyRoles [] (colorData.backgrounds whiteSectionsDarkFooter) []) = [''#ffffff''] \<and>
   background (classifyRoles [] (colorData.backgrounds whiteSectionsDarkFooter) []) = ''#ffffff''"
proof -
  let ?bgs = "colorData.backgrounds whiteSectionsDarkFooter"
  have ne: "\<forall>b \<in> set ?bgs. colorArea.color b \<noteq> []"
    by (simp add: bgs_whiteSectionsDarkFooter)
  note t = backgrounds_selection [of "[]" ?bgs "[]"]
  from t have "backgrounds (classifyRoles [] ?bgs []) =
      dedupe (map colorArea.color (take 3 (sortDescBy area (filter (\<lambda>b. area b > 50000) ?bgs))))"
    by blast
  then have b: "backgrounds (classifyRoles [] ?bgs []) = [''#ffffff'']"
    unfolding ranked_whiteSectionsDarkFooter by (simp add: bgs_whiteSectionsDarkFooter dedupe_def)
  from t ne have "background (classifyRoles [] ?bgs []) =
        (case backgrounds (classifyRoles [] ?bgs []) of [] \<Rightarrow> ''#ffffff'' | c # _ \<Rightarrow> c)"
    by blast
  with b have "background (classifyRoles [] ?bgs []) = ''#ffffff''" by simp
  moreover from ne have "[] \<notin> colorArea.color ` set ?bgs" by auto
  ultimately show ?thesis using b by blast
qed

text \<open>
  A square image at the upper threshold. Its side is the double \<open>223.60679774997897\<close>;
  the exact square of the side is below \<open>50000\<close>, the computed product is \<open>50000\<close>, and
  the engine gives no area bonus.
\<close>

lemma logoScore_logoAtThreshold:
  "logoCandidate.width logoAtThreshold * logoCandidate.height logoAtThreshold < 50000"
  "double (logoCandidate.width logoAtThreshold * logoCandidate.height logoAtThreshold) = 50000"
  "logoScore logoAtThreshold = 0"
  by (simp_all add: logoAtThreshold_def logoScore_def double_vals)

lemma scored_logoPngThenSvg:
  "scored logoPngThenSvg = [(logoPngThenSvg ! 1, 150), (logoPngThenSvg ! 0, 130)]"
  by (simp add: scored_def sortDescBy_def logoPngThenSvg_def logoScore_def double_vals)

text \<open>
  C7 at a PNG and an SVG in the header, both with a logo keyword and an area of
  \<open>4000\<close>: the scores are \<open>130\<close> and \<open>150\<close>, the SVG wins though observed second, and
  the PNG is the only alternative.
\<close>

theorem logo_ranking_witness:
  "logoScore (logoPngThenSvg ! 0) = 30 + 30 + 40 + 30 \<and>
   logoScore (logoPngThenSvg ! 1) = 50 + 30 + 40 + 30 \<and>
   double (logoCandidate.width (logoPngThenSvg ! 0) * logoCandidate.height (logoPngThenSvg ! 0)) = 4000 \<and>
   logoResult.url (extractLogo logoPngThenSvg) = Some ''data:image/svg+xml,%3Csvg%3E'' \<and>
   alternatives (extractLogo logoPngThenSvg) =
     [\<lparr>alternative.url = Some ''https://example.com/logo.png'', alternative.format = ''png''\<rparr>]"
proof -
  note t = logo_ranking [of _ logoPngThenSvg]
  have wh: "logoCandidate.width (logoPngThenSvg ! 0) = of_int 100"
    "logoCandidate.height (logoPngThenSvg ! 0) = of_int 40"
    by (simp_all add: logoPngThenSvg_def)
  from logo_ranking [of "logoPngThenSvg ! 0" logoPngThenSvg]
  have "\<forall>m n. logoCandidate.width (logoPngThenSvg ! 0) = of_int m \<and>
      logoCandidate.height (logoPngThenSvg ! 0) = of_int n \<and> \<bar>m * n\<bar> \<le> 2 ^ 53 \<longrightarrow>
      double (logoCandidate.width (logoPngThenSvg ! 0) * logoCandidate.height (logoPngThenSvg ! 0)) =
        logoCandidate.width (logoPngThenSvg ! 0) * logoCandidate.height (logoPngThenSvg ! 0)"
    by blast
  then have "logoCandidate.width (logoPngThenSvg ! 0) = of_int 100 \<and>
      logoCandidate.height (logoPngThenSvg ! 0) = of_int 40 \<and> \<bar>100 * 40 :: int\<bar> \<le> 2 ^ 53 \<longrightarrow>
      double (logoCandidate.width (logoPngThenSvg ! 0) * logoCandidate.height (logoPngThenSvg ! 0)) =
        logoCandidate.width (logoPngThenSvg ! 0) * logoCandidate.height (logoPngThenSvg ! 0)"
    by blast
  with wh have d: "double (logoCandidate.width (logoPngThenSvg ! 0) * logoCandidate.height (logoPngThenSvg ! 0)) = 4000"
    by simp
  have 0: "logoScore (logoPngThenSvg ! 0) = 30 + 30 + 40 + 30"
    using logo_ranking [of "logoPngThenSvg ! 0" logoPngThenSvg] by (simp add: logoPngThenSvg_def double_vals)
  have 1: "logoScore (logoPngThenSvg ! 1) = 50 + 30 + 40 + 30"
    using logo_ranking [of "logoPngThenSvg ! 1" logoPngThenSvg] by (simp add: logoPngThenSvg_def double_vals)
  from t have b: "best logoPngThenSvg = Some (logoPngThenSvg ! 1, 150)"
    by (simp add: scored_logoPngThenSvg)
  from t have "logoResult.url (extractLogo logoPngThenSvg) =
     (case best logoPngThenSvg of None \<Rightarrow> None | Some (l, s) \<Rightarrow> orElse (src l) None)"
    by blast
  then have u: "logoResult.url (extractLogo logoPngThenSvg) = Some ''data:image/svg+xml,%3Csvg%3E''"
    by (simp add: b) (simp add: logoPngThenSvg_def orElse_def truthyStr_def)
  from t have "alternatives (extractLogo logoPngThenSvg) =
     map (\<lambda>(l, s). \<lparr>alternative.url = src l, alternative.format = logoCandidate.format l\<rparr>)
       (take 3 (drop 1 (scored logoPngThenSvg)))"
    by blast
  then have a: "alternatives (extractLogo logoPngThenSvg) =
     [\<lparr>alternative.url = Some ''https://example.com/logo.png'', alternative.format = ''png''\<rparr>]"
    by (simp add: scored_logoPngThenSvg) (simp add: logoPngThenSvg_def)
  from 0 1 d u a show ?thesis by blast
qed

text \<open>
  C10 at a page with an orange border colour, used twice: the vibrancy is \<open>1\<close>, above
  \<open>0.3\<close>, the border contribution is \<open>30 + 40\<close>, the entry has a positive total and
  the palette entry a non-empty usage list.
\<close>

theorem contributions_positive_witness:
  "rendererColors orangeBorders \<and>
   countOccurrences (borders orangeBorders) = [(''#ff5000'', 2)] \<and>
   double (3 / 10) < getColorVibrancy ''#ff5000'' \<and>
   3 / 10 < getColorVibrancy ''#ff5000'' \<and>
   15 < borderScore ''#ff5000'' 2 \<and>
   0 < total (snd (hd (colorScores orangeBorders))) \<and>
   usage (hd (palette (classifyColors orangeBorders))) \<noteq> []"
proof -
  have r: "rendererColors orangeBorders"
    by (simp add: rendererColors_def orangeBorders_def noCandidates_def hexColor_def hexDigit_def
        hexDigits_def)
  have c: "countOccurrences (borders orangeBorders) = [(''#ff5000'', 2)]"
    by (simp add: orangeBorders_def noCandidates_def countOccurrences_def setKey_def hasKey_iff)
  have v: "double (3 / 10) < getColorVibrancy ''#ff5000''"
    by (simp add: example_colours double_vals)
  note t = contributions_positive [OF r, of "[]"]
  from t have "\<forall>(c, n) \<in> set (countOccurrences (borders orangeBorders)).
                 double (3 / 10) < getColorVibrancy c \<longrightarrow> 15 < borderScore c n" by blast
  with c v have b: "15 < borderScore ''#ff5000'' 2" by simp
  from t have "\<forall>c. double (3 / 10) < getColorVibrancy c \<longleftrightarrow> 3 / 10 < getColorVibrancy c" by blast
  with v have v': "3 / 10 < getColorVibrancy ''#ff5000''" by blast
  from t have m: "\<forall>(c, e) \<in> set (colorScores orangeBorders). 0 < total e" by blast
  have "hd (colorScores orangeBorders) \<in> set (colorScores orangeBorders)"
    by (simp add: colorScores_orangeBorders)
  with m have 1: "0 < total (snd (hd (colorScores orangeBorders)))"
    by (auto simp: case_prod_unfold)
  from t have p: "\<forall>p \<in> set (palette (classifyColors orangeBorders)). usage p \<noteq> []" by blast
  have "hd (palette (classifyColors orangeBorders)) \<in> set (palette (classifyColors orangeBorders))"
    by (simp add: classifyColors_orangeBorders)
  with p have 2: "usage (hd (palette (classifyColors orangeBorders))) \<noteq> []" by blast
  from r c v v' b 1 2 show ?thesis by blast
qed

text \<open>
  A light green border colour, used twice. Its vibrancy is \<open>0.12\<close>, not above \<open>0.3\<close>,
  and nothing is scored.
\<close>

lemma colorScores_mintBorders_empty:
  "getColorVibrancy ''#99ffbb'' = 1080863910568919 / 9007199254740992 \<and> colorScores mintBorders = []"
  by (simp add: colorScores_mintBorders example_colours)

text \<open>
  Claim C4 as stated fails. A section and two badges share the background \<open>#c86404\<close>
  (saturation \<open>0.98\<close>, luminance \<open>0.466\<close>). The background contributes \<open>15\<close>, each
  badge \<open>118.8\<close>. The total is rounded after each addition, \<open>15\<close>, \<open>133.8\<close>,
  \<open>252.60000000000002\<close>; the accent subtotal is \<open>118.8\<close>, then \<open>237.6\<close>. The
  subtotals \<open>15\<close> and \<open>237.6\<close> add up to the double \<open>252.6\<close>, exactly and therefore in
  double arithmetic as well, one unit in the last place below the total.
\<close>

theorem total_sum_double_counterexample:
  "colorScores orangeSectionTwoBadges =
     [(''#c86404'', \<lparr>total = 2221893097409741 / 8796093022208,
        categories = [(Background, 15), (Accent, 8359806808306483 / 35184372088832)],
        vibrancy = 2206763817411543 / 2251799813685248\<rparr>)] \<and>
   \<not> (\<forall>(c, e) \<in> set (colorScores orangeSectionTwoBadges).
        total e = sum_list (map snd (categories e))) \<and>
   \<not> (\<forall>(c, e) \<in> set (colorScores orangeSectionTwoBadges).
        total e = foldl (\<lambda>a x. double (a + x)) 0 (map snd (categories e)))"
  by (simp add: colorScores_orangeSectionTwoBadges double_vals)

text \<open>
  The amended C4 at the same page, which has three candidates: total and sum of the
  subtotals differ by \<open>2 ^ - 45\<close>, within three times \<open>2 ^ - 52\<close> of the total, and
  one more background of the same colour keeps them within four times \<open>2 ^ - 52\<close> of
  the new total. At the page with two SVG colours the first entry has a single category,
  and total and subtotal are equal.
\<close>

theorem total_is_sum_up_to_rounding_witness:
  "rendererColors orangeSectionTwoBadges \<and>
   candidateCount orangeSectionTwoBadges = 3 \<and>
   total (snd (hd (colorScores orangeSectionTwoBadges))) -
     sum_list (map snd (categories (snd (hd (colorScores orangeSectionTwoBadges))))) = 1 / 2 ^ 45 \<and>
   \<bar>total (snd (hd (colorScores orangeSectionTwoBadges))) -
     sum_list (map snd (categories (snd (hd (colorScores orangeSectionTwoBadges)))))\<bar>
     \<le> 3 * 2 powi (- 52) * total (snd (hd (colorScores orangeSectionTwoBadges))) \<and>
   \<bar>total (snd (hd (addScore ''#c86404'' 15 Background (colorScores orangeSectionTwoBadges)))) -
     sum_list (map snd (categories (snd (hd
       (addScore ''#c86404'' 15 Background (colorScores orangeSectionTwoBadges))))))\<bar>
     \<le> 4 * 2 powi (- 52) *
         total (snd (hd (addScore ''#c86404'' 15 Background (colorScores orangeSectionTwoBadges)))) \<and>
   rendererColors twoSvgColors \<and>
   categories (snd (hd (colorScores twoSvgColors))) = [(Svg, 230)] \<and>
   total (snd (hd (colorScores twoSvgColors))) = 230"
proof -
  let ?cs = "colorScores orangeSectionTwoBadges"
  let ?e = "snd (hd ?cs)"
  let ?cs' = "addScore ''#c86404'' 15 Background ?cs"
  let ?e' = "snd (hd ?cs')"
  have r: "rendererColors orangeSectionTwoBadges"
    by (simp add: rendererColors_def orangeSectionTwoBadges_def noCandidates_def hexColor_def
        hexDigit_def hexDigits_def)
  have n: "candidateCount orangeSectionTwoBadges = 3"
    by (simp add: candidateCount_def orangeSectionTwoBadges_def noCandidates_def)
  note t = total_is_sum_up_to_rounding [OF r, of ?cs 3 15 "''#c86404''" Background]
  from t have a: "\<forall>(c, e) \<in> set ?cs.
            \<bar>total e - sum_list (map snd (categories e))\<bar>
              \<le> of_nat (candidateCount orangeSectionTwoBadges) * 2 powi (- 52) * total e"
    by blast
  have "hd ?cs \<in> set ?cs" by (simp add: colorScores_orangeSectionTwoBadges)
  with a have "\<bar>total ?e - sum_list (map snd (categories ?e))\<bar>
              \<le> of_nat (candidateCount orangeSectionTwoBadges) * 2 powi (- 52) * total ?e"
    by (auto simp: case_prod_unfold)
  then have 1: "\<bar>total ?e - sum_list (map snd (categories ?e))\<bar> \<le> 3 * 2 powi (- 52) * total ?e"
    by (simp only: n of_nat_numeral)
  have 2: "total ?e - sum_list (map snd (categories ?e)) = 1 / 2 ^ 45"
    by (simp add: colorScores_orangeSectionTwoBadges)
  have pre: "\<forall>(k, e) \<in> set ?cs. nearlyAdditive 3 e"
    using colorScores_nearlyAdditive [OF r] by (simp only: n)
  from t pre have post: "\<forall>(k, e) \<in> set ?cs'. nearlyAdditive (Suc 3) e" by simp
  have cs': "?cs' =
     [(''#c86404'', \<lparr>total = 2353834492742861 / 8796093022208,
        categories = [(Background, 30), (Accent, 8359806808306483 / 35184372088832)],
        vibrancy = 2206763817411543 / 2251799813685248\<rparr>)]"
    by (simp add: colorScores_orangeSectionTwoBadges addScore_def toLowerCase_examples hasKey_iff
        setKey_def orZero_def double_vals)
  then have "hd ?cs' \<in> set ?cs'" by simp
  with post have "nearlyAdditive (Suc 3) ?e'" by (auto simp: case_prod_unfold)
  then have "\<bar>total ?e' - sum_list (map snd (categories ?e'))\<bar>
      \<le> of_nat (Suc 3) * 2 powi (- 52) * total ?e'"
    by (simp only: nearlyAdditive_def)
  moreover have "(of_nat (Suc 3) :: rat) = 4" by simp
  ultimately have 3: "\<bar>total ?e' - sum_list (map snd (categories ?e'))\<bar> \<le> 4 * 2 powi (- 52) * total ?e'"
    by (simp only:)
  have r2: "rendererColors twoSvgColors"
    by (simp add: rendererColors_def twoSvgColors_def noCandidates_def hexColor_def hexDigit_def
        hexDigits_def)
  have c: "categories (snd (hd (colorScores twoSvgColors))) = [(Svg, 230)]"
    by (simp add: colorScores_twoSvgColors)
  from total_is_sum_up_to_rounding [OF r2]
  have "\<forall>(c, e) \<in> set (colorScores twoSvgColors). \<forall>cat v. categories e = [(cat, v)] \<longrightarrow> total e = v"
    by blast
  moreover have "hd (colorScores twoSvgColors) \<in> set (colorScores twoSvgColors)"
    by (simp add: colorScores_twoSvgColors)
  ultimately have "\<forall>cat v. categories (snd (hd (colorScores twoSvgColors))) = [(cat, v)] \<longrightarrow>
      total (snd (hd (colorScores twoSvgColors))) = v"
    by (auto simp: case_prod_unfold)
  with c have 4: "total (snd (hd (colorScores twoSvgColors))) = 230" by blast
  from r n 1 2 3 r2 c 4 show ?thesis by blast
qed

text \<open>
  Claim C6. With every candidate list empty (the two guarded lists empty or absent) the
  classifier returns \<open>primary = null\<close>, \<open>secondary = null\<close>,
  \<open>background = "#ffffff"\<close>, \<open>text = "#000000"\<close> and an empty palette; the other
  fields are \<open>null\<close> or empty as well. \<open>classifyColors\<close> is a total function on
  typed candidate lists, so a result is always returned.
\<close>

theorem classifyColors_empty_defaults:
  "classifyColors \<lparr>buttons = [], links = [], colorData.backgrounds = [], colorData.text = [],
     borders = [], svgColors = Some [], accentElements = Some []\<rparr>
   = \<lparr>primary = None, secondary = None, background = ''#ffffff'', backgrounds = [],
      text = ''#000000'', textColors = [], accent = None, palette = []\<rparr> \<and>
   classifyColors \<lparr>buttons = [], links = [], colorData.backgrounds = [], colorData.text = [],
     borders = [], svgColors = None, accentElements = None\<rparr>
   = \<lparr>primary = None, secondary = None, background = ''#ffffff'', backgrounds = [],
      text = ''#000000'', textColors = [], accent = None, palette = []\<rparr>"
  by (simp add: classifyColors_def aggregate_defs sortedColors_def select_defs)

text \<open>
  Claim C9. Some input makes the classifier report the same colour as primary and as
  secondary. One link of colour \<open>#a08282\<close> (saturation \<open>0.1875\<close>: not neutral for the
  renderer's link filter, neutral-or-dark for the selector) gives a single ranked entry
  with a link subtotal of \<open>15.625\<close>. None of the three primary predicates matches it,
  so \<open>primaryColor\<close> stays undefined and primary falls back to the top-ranked entry;
  the strict secondary search rejects it as neutral-or-dark, and the relaxed search,
  which excludes only the colour matched by the primary predicates, selects it.
\<close>

theorem secondary_equals_primary_example:
  "\<exists>colorData.
     links colorData = [''#a08282''] \<and>
     primaryColor (sortedColors (colorScores colorData)) = None \<and>
     colorOf (nthOpt (sortedColors (colorScores colorData)) 0) = Some ''#a08282'' \<and>
     colorOf (secondaryColor (sortedColors (colorScores colorData)) None) = Some ''#a08282'' \<and>
     primary (classifyColors colorData) = Some ''#a08282'' \<and>
     secondary (classifyColors colorData) = primary (classifyColors colorData)"
proof -
  have l: "links oneMutedLink = [''#a08282'']"
    by (simp add: oneMutedLink_def noCandidates_def)
  have "primaryColor (sortedColors (colorScores oneMutedLink)) = None \<and>
     colorOf (nthOpt (sortedColors (colorScores oneMutedLink)) 0) = Some ''#a08282'' \<and>
     colorOf (secondaryColor (sortedColors (colorScores oneMutedLink)) None) = Some ''#a08282'' \<and>
     primary (classifyColors oneMutedLink) = Some ''#a08282'' \<and>
     secondary (classifyColors oneMutedLink) = primary (classifyColors oneMutedLink)"
    by (simp add: classifyColors_oneMutedLink example_pages colorOf_def primaryColor_def
        secondaryColor_def nthOpt_def catValue_def truthyNum_def exceeds_def example_colours)
  with l show ?thesis by blast
qed

end
